theory Spec2Isabelle
  imports Main "HOL-Library.Sublist" "HOL-Library.Multiset"
begin

section \<open>Exceptions, log messages and observable events\<close>

text \<open>
  The scrapers drive an external browser. Everything the browser (and the parsed
  DOM) answers is an input of the model; everything the program does to the outside
  (driver creation, navigation, quitting the driver, sleeping, logging, printing)
  is recorded, in program order, in a list of events returned next to the result.

  The exception classes the handlers of \<^verbatim>\<open>web.py\<close> tell apart. In Selenium,
  \<^verbatim>\<open>TimeoutException\<close> is a subclass of \<^verbatim>\<open>WebDriverException\<close>.
  \<open>InitError\<close> is the plain \<^verbatim>\<open>Exception\<close> raised by \<^verbatim>\<open>setup_driver\<close>,
  \<open>RetryError\<close> the one tenacity's \<^verbatim>\<open>@retry\<close> raises when its attempts are used
  up, \<open>OtherException\<close> any other \<^verbatim>\<open>Exception\<close>.
\<close>

datatype exn = TimeoutException | WebDriverException | InitError | RetryError | OtherException

fun is_WebDriverException :: "exn \<Rightarrow> bool" where
  "is_WebDriverException TimeoutException = True"
| "is_WebDriverException WebDriverException = True"
| "is_WebDriverException _ = False"

datatype level = Info | Warning | Error

datatype message =
    MInitFailed nat          \<comment> \<open>"Attempt {attempt} failed to initialize driver"\<close>
  | MScrollTimeout nat       \<comment> \<open>"Timeout during scroll {scroll + 1}, continuing..."\<close>
  | MCollected nat           \<comment> \<open>"Collected {len(article_links)} article links"\<close>
  | MLinksDriverError        \<comment> \<open>"WebDriver error while collecting links"\<close>
  | MLinksUnexpected         \<comment> \<open>"Unexpected error collecting links"\<close>
  | MArticleScraped string   \<comment> \<open>"Successfully scraped article: {url}"\<close>
  | MArticleTimeout string   \<comment> \<open>"Timeout while scraping article {url}"\<close>
  | MArticleDriverError string \<comment> \<open>"WebDriver error while scraping {url}"\<close>
  | MArticleUnexpected string \<comment> \<open>"Unexpected error scraping {url}"\<close>
  | MNoLinks                 \<comment> \<open>"No article links found"\<close>
  | MArticleFailed string    \<comment> \<open>"Failed to scrape article {url}"\<close>
  | MSaved nat               \<comment> \<open>"Successfully saved {len(df)} articles to {filename}"\<close>
  | MSaveError               \<comment> \<open>"Error saving to CSV"\<close>
  | MMainError               \<comment> \<open>"Error in main scraping process"\<close>
  | PLink string             \<comment> \<open>\<^verbatim>\<open>test.py\<close>: print(link)\<close>
  | PArticleError            \<comment> \<open>\<^verbatim>\<open>test.py\<close>: "Error scraping article"\<close>
  | PContentError            \<comment> \<open>\<^verbatim>\<open>test.py\<close>: "Error loading article content"\<close>
  | PScraped nat             \<comment> \<open>\<^verbatim>\<open>web.py\<close>: "Scraped {len(df)} articles successfully!"\<close>
  | PScrapingFailed          \<comment> \<open>\<^verbatim>\<open>web.py\<close>: "Scraping failed"\<close>

text \<open>The two places of \<^verbatim>\<open>web.py\<close> that call \<^verbatim>\<open>self.driver.quit()\<close>, and the one of
  \<^verbatim>\<open>test.py\<close>.\<close>

datatype quit_site = InRestart | InFinally

datatype event =
    Create                   \<comment> \<open>\<^verbatim>\<open>webdriver.Chrome(...)\<close> is called\<close>
  | Get string               \<comment> \<open>\<^verbatim>\<open>driver.get(url)\<close> is called\<close>
  | Quit quit_site           \<comment> \<open>\<^verbatim>\<open>driver.quit()\<close> is called\<close>
  | Sleep nat                \<comment> \<open>\<^verbatim>\<open>time.sleep(seconds)\<close>, or the retry decorator's wait\<close>
  | Log level message        \<comment> \<open>\<^verbatim>\<open>logging.info/warning/error\<close>\<close>
  | Print message            \<comment> \<open>\<^verbatim>\<open>print\<close>\<close>

type_synonym 'a outcome = "event list \<times> (exn + 'a)"

text \<open>Sequencing: the events of a first step come before those of what follows.\<close>

definition after :: "event list \<Rightarrow> event list \<times> 'a \<Rightarrow> event list \<times> 'a" where
  "after evs r = (evs @ fst r, snd r)"

section \<open>\<^verbatim>\<open>web.py\<close>: the session (\<^verbatim>\<open>setup_driver\<close>, \<^verbatim>\<open>restart_driver\<close>)\<close>

definition max_attempts :: nat where
  "max_attempts = 3"

text \<open>
  \<^verbatim>\<open>setup_driver\<close>: the \<^verbatim>\<open>while attempt < max_attempts\<close> loop, entered with the
  current value of \<^verbatim>\<open>attempt\<close>. The input \<open>chrome k\<close> tells whether the driver
  creation made after \<open>k\<close> failures succeeds. The loop's right-hand exit (the
  condition false) returns normally, as in the source.
\<close>

function setup_driver_loop :: "(nat \<Rightarrow> bool) \<Rightarrow> nat \<Rightarrow> unit outcome" where
  "setup_driver_loop chrome attempt =
     (if attempt < max_attempts then
        (if chrome attempt then ([Create], Inr ())
         else
           (let attempt' = attempt + 1 in
            if attempt' = max_attempts
            then ([Create, Log Error (MInitFailed attempt')], Inl InitError)
            else after [Create, Log Error (MInitFailed attempt'), Sleep 5]
                       (setup_driver_loop chrome attempt')))
      else ([], Inr ()))"
  by pat_completeness auto
termination
  by (relation "measure (\<lambda>(chrome, attempt). max_attempts - attempt)") auto

declare setup_driver_loop.simps [simp del]

definition setup_driver :: "(nat \<Rightarrow> bool) \<Rightarrow> unit outcome" where
  "setup_driver chrome = setup_driver_loop chrome 0"

text \<open>\<^verbatim>\<open>restart_driver\<close>: quit the driver (whatever that raises is swallowed), then
  \<^verbatim>\<open>setup_driver\<close>.\<close>

definition restart_driver :: "(nat \<Rightarrow> bool) \<Rightarrow> unit outcome" where
  "restart_driver chrome = after [Quit InRestart] (setup_driver chrome)"

section \<open>Python values: sets, strings, slices\<close>

text \<open>
  A Python \<^verbatim>\<open>set\<close> of strings is kept as the list of its elements in the order they
  were first added: \<open>set_add\<close> leaves the list alone when the element is already
  there, \<open>length\<close> is \<^verbatim>\<open>len\<close>. The order in which Python iterates over a set
  (\<^verbatim>\<open>list(article_links)\<close>) is the order of its hash table, which the program does not
  control; it is an input of the model, a function \<open>set_iter\<close> that rearranges the
  elements.
\<close>

definition set_add :: "'a \<Rightarrow> 'a list \<Rightarrow> 'a list" where
  "set_add x s = (if x \<in> set s then s else s @ [x])"

text \<open>\<^verbatim>\<open>needle in hay\<close> on strings.\<close>

fun str_contains :: "string \<Rightarrow> string \<Rightarrow> bool" where
  "str_contains needle [] = (needle = [])"
| "str_contains needle (c # cs) = (prefix needle (c # cs) \<or> str_contains needle cs)"

text \<open>\<^verbatim>\<open>xs[:n]\<close>: a negative \<open>n\<close> counts from the end.\<close>

definition slice_to :: "int \<Rightarrow> 'a list \<Rightarrow> 'a list" where
  "slice_to n xs = (if 0 \<le> n then take (nat n) xs else take (length xs - nat (- n)) xs)"

text \<open>
  \<^verbatim>\<open>str.strip()\<close> removes leading and trailing whitespace. Characters are the
  code points below 256; of these Python counts as whitespace 9 to 13, 28 to 32, 133
  and 160.
\<close>

definition is_space :: "char \<Rightarrow> bool" where
  "is_space c = (let n = (of_char c :: nat) in
     (9 \<le> n \<and> n \<le> 13) \<or> (28 \<le> n \<and> n \<le> 32) \<or> n = 133 \<or> n = 160)"

definition strip :: "string \<Rightarrow> string" where
  "strip s = rev (dropWhile is_space (rev (dropWhile is_space s)))"

text \<open>\<^verbatim>\<open>sep.join(parts)\<close>.\<close>

fun join :: "string \<Rightarrow> string list \<Rightarrow> string" where
  "join sep [] = []"
| "join sep [x] = x"
| "join sep (x # y # ys) = x @ sep @ join sep (y # ys)"

section \<open>The retry decorator\<close>

text \<open>
  \<^verbatim>\<open>@retry(stop=stop_after_attempt(3), wait=wait_exponential(multiplier=1, min=4, max=10))\<close>
  of the tenacity library: the decorated function is called again after any exception,
  the wait before the next call is \<open>multiplier * 2 ^ (attempt_number - 1)\<close> clamped to
  \<open>[min, max]\<close>, and when the last allowed attempt has failed \<^verbatim>\<open>RetryError\<close> is
  raised. \<open>body k\<close> is the run of the decorated function on its attempt \<open>k + 1\<close>;
  \<open>retry n k body\<close> has \<open>n\<close> attempts left.
\<close>

definition stop_after_attempt :: nat where
  "stop_after_attempt = 3"

definition wait_exponential :: "nat \<Rightarrow> nat" where
  "wait_exponential attempt_number = max 4 (min (1 * 2 ^ (attempt_number - 1)) 10)"

fun retry :: "nat \<Rightarrow> nat \<Rightarrow> (nat \<Rightarrow> 'a outcome) \<Rightarrow> 'a outcome" where
  "retry 0 k body = ([], Inl RetryError)"
| "retry (Suc n) k body =
     (case body k of
        (evs, Inr v) \<Rightarrow> (evs, Inr v)
      | (evs, Inl e) \<Rightarrow>
          if n = 0 then (evs, Inl RetryError)
          else after (evs @ [Sleep (wait_exponential (k + 1))]) (retry n (k + 1) body))"

section \<open>\<^verbatim>\<open>web.py\<close>: \<^verbatim>\<open>get_article_links\<close>\<close>

text \<open>
  What the browser shows in one iteration of the scroll loop: either the script, a poll
  of the wait or \<^verbatim>\<open>find_elements\<close> raises, or the page holds \<^verbatim>\<open>a.title\<close>
  elements, listed with what \<^verbatim>\<open>get_attribute('href')\<close> gives on each (it raises; or
  it returns the attribute, \<open>None\<close> when there is none). The page is taken to be the
  same while the wait polls it and when the links are read: the wait succeeds when
  there are more elements than collected links, and times out otherwise.
\<close>

datatype scroll = ScrollRaises exn | Elements "(exn + string option) list"

text \<open>\<^verbatim>\<open>if href and 'setopati.com' in href\<close>\<close>

definition keep_href :: "string option \<Rightarrow> bool" where
  "keep_href href =
     (case href of None \<Rightarrow> False | Some h \<Rightarrow> h \<noteq> [] \<and> str_contains ''setopati.com'' h)"

text \<open>\<^verbatim>\<open>for link in links\<close>: the set after the loop, and the exception that ended the
  loop early, if one did.\<close>

fun add_links :: "(exn + string option) list \<Rightarrow> string list \<Rightarrow> string list \<times> exn option" where
  "add_links [] article_links = (article_links, None)"
| "add_links (Inl e # links) article_links = (article_links, Some e)"
| "add_links (Inr href # links) article_links =
     add_links links
       (case href of
          None \<Rightarrow> article_links
        | Some h \<Rightarrow> if keep_href href then set_add h article_links else article_links)"

text \<open>
  \<^verbatim>\<open>for scroll in range(max_scrolls)\<close>, with \<open>n\<close> iterations left, \<open>scroll\<close> the
  loop variable and \<open>article_links\<close> the set collected so far. A
  \<^verbatim>\<open>TimeoutException\<close> is caught inside the loop; anything else leaves it.
\<close>

fun scroll_loop :: "(nat \<Rightarrow> scroll) \<Rightarrow> nat \<Rightarrow> nat \<Rightarrow> string list \<Rightarrow> string list outcome" where
  "scroll_loop page 0 scroll article_links = ([], Inr article_links)"
| "scroll_loop page (Suc n) scroll article_links =
     (case page scroll of
        ScrollRaises e \<Rightarrow>
          if e = TimeoutException
          then after [Log Warning (MScrollTimeout (scroll + 1))]
                 (scroll_loop page n (scroll + 1) article_links)
          else ([], Inl e)
      | Elements links \<Rightarrow>
          if length links > length article_links
          then
            (case add_links links article_links of
               (article_links', None) \<Rightarrow>
                 after [Sleep 2] (scroll_loop page n (scroll + 1) article_links')
             | (article_links', Some e) \<Rightarrow>
                 if e = TimeoutException
                 then after [Log Warning (MScrollTimeout (scroll + 1))]
                        (scroll_loop page n (scroll + 1) article_links')
                 else ([], Inl e))
          else after [Log Warning (MScrollTimeout (scroll + 1))]
                 (scroll_loop page n (scroll + 1) article_links))"

text \<open>The browser's answers during one attempt of \<^verbatim>\<open>get_article_links\<close>.\<close>

record links_attempt =
  listing_nav :: "exn option"        \<comment> \<open>\<^verbatim>\<open>driver.get(url)\<close>: \<open>Some e\<close> when it raises\<close>
  listing_scrolls :: "nat \<Rightarrow> scroll"
  listing_chrome :: "nat \<Rightarrow> bool"   \<comment> \<open>driver creations, should the driver be restarted\<close>

text \<open>The \<^verbatim>\<open>except\<close> clauses of \<^verbatim>\<open>get_article_links\<close>. An exception raised by
  \<^verbatim>\<open>restart_driver\<close> inside the handler replaces the one being handled.\<close>

definition links_handlers :: "(nat \<Rightarrow> bool) \<Rightarrow> exn \<Rightarrow> string list outcome" where
  "links_handlers chrome e =
     (if is_WebDriverException e then
        (case restart_driver chrome of
           (evs, Inl e') \<Rightarrow> (Log Error MLinksDriverError # evs, Inl e')
         | (evs, Inr _) \<Rightarrow> (Log Error MLinksDriverError # evs, Inl e))
      else ([Log Error MLinksUnexpected], Inl e))"

definition get_article_links_body ::
  "(string list \<Rightarrow> string list) \<Rightarrow> links_attempt \<Rightarrow> string \<Rightarrow> nat \<Rightarrow> string list outcome" where
  "get_article_links_body set_iter w url max_scrolls =
     (case listing_nav w of
        Some e \<Rightarrow> after [Get url] (links_handlers (listing_chrome w) e)
      | None \<Rightarrow>
          (case scroll_loop (listing_scrolls w) max_scrolls 0 [] of
             (evs, Inl e) \<Rightarrow> after (Get url # evs) (links_handlers (listing_chrome w) e)
           | (evs, Inr article_links) \<Rightarrow>
               (Get url # evs @ [Log Info (MCollected (length article_links))],
                Inr (set_iter article_links))))"

definition get_article_links ::
  "(string list \<Rightarrow> string list) \<Rightarrow> (nat \<Rightarrow> links_attempt) \<Rightarrow> string \<Rightarrow> nat \<Rightarrow> string list outcome" where
  "get_article_links set_iter listing url max_scrolls =
     retry stop_after_attempt 0 (\<lambda>k. get_article_links_body set_iter (listing k) url max_scrolls)"

section \<open>\<^verbatim>\<open>web.py\<close>: \<^verbatim>\<open>scrape_article\<close>\<close>

record article_data =
  url :: string
  title :: string
  date :: string
  content :: string
  category :: string
  author :: string

text \<open>
  The browser's answers during one attempt of \<^verbatim>\<open>scrape_article\<close>, in the order the
  program asks: the navigation, the wait for the \<^verbatim>\<open>news-content\<close> element, the text
  of the title, of the date, of the content element, of the category and of the author
  (\<open>Inl e\<close>: the wait or the read raises \<open>e\<close>). \<open>page_paragraphs\<close> are the texts
  of the \<^verbatim>\<open>p\<close> elements inside the content element; the program never asks for
  them.
\<close>

record article_attempt =
  page_nav :: "exn option"
  page_content_element :: "exn option"
  page_title :: "exn + string"
  page_date :: "exn + string"
  page_content_text :: "exn + string"
  page_category :: "exn + string"
  page_author :: "exn + string"
  page_paragraphs :: "string list"
  page_chrome :: "nat \<Rightarrow> bool"

text \<open>The \<^verbatim>\<open>try\<close> block up to the construction of \<^verbatim>\<open>article_data\<close>.\<close>

definition scrape_article_try :: "article_attempt \<Rightarrow> string \<Rightarrow> exn + article_data" where
  "scrape_article_try p u =
     (case page_nav p of Some e \<Rightarrow> Inl e | None \<Rightarrow>
      (case page_content_element p of Some e \<Rightarrow> Inl e | None \<Rightarrow>
       (case page_title p of Inl e \<Rightarrow> Inl e | Inr t \<Rightarrow>
        (case page_date p of Inl e \<Rightarrow> Inl e | Inr d \<Rightarrow>
         (case page_content_text p of Inl e \<Rightarrow> Inl e | Inr c \<Rightarrow>
          (case page_category p of Inl e \<Rightarrow> Inl e | Inr g \<Rightarrow>
           (case page_author p of
              Inr a \<Rightarrow>
                Inr \<lparr>url = u, title = t, date = d, content = c, category = g, author = a\<rparr>
            | Inl e \<Rightarrow>
                if e = TimeoutException
                then Inr \<lparr>url = u, title = t, date = d, content = c, category = g,
                          author = ''Unknown''\<rparr>
                else Inl e)))))))"

definition scrape_article_body :: "article_attempt \<Rightarrow> string \<Rightarrow> article_data outcome" where
  "scrape_article_body p u =
     (case scrape_article_try p u of
        Inr article_data \<Rightarrow> ([Get u, Log Info (MArticleScraped u)], Inr article_data)
      | Inl e \<Rightarrow>
          if e = TimeoutException then ([Get u, Log Error (MArticleTimeout u)], Inl e)
          else if is_WebDriverException e then
            (case restart_driver (page_chrome p) of
               (evs, Inl e') \<Rightarrow> (Get u # Log Error (MArticleDriverError u) # evs, Inl e')
             | (evs, Inr _) \<Rightarrow> (Get u # Log Error (MArticleDriverError u) # evs, Inl e))
          else ([Get u, Log Error (MArticleUnexpected u)], Inl e))"

definition scrape_article :: "(nat \<Rightarrow> article_attempt) \<Rightarrow> string \<Rightarrow> article_data outcome" where
  "scrape_article attempts u =
     retry stop_after_attempt 0 (\<lambda>k. scrape_article_body (attempts k) u)"

section \<open>\<^verbatim>\<open>web.py\<close>: \<^verbatim>\<open>scrape_website\<close>\<close>

text \<open>
  Everything outside the program during one run: the iteration order of the set, the
  browser's answers to the attempts of \<^verbatim>\<open>get_article_links\<close> and, for each URL, to
  the attempts of \<^verbatim>\<open>scrape_article\<close>, and whether writing the CSV file works.
\<close>

record world =
  iteration_order :: "string list \<Rightarrow> string list"
  links_attempts :: "nat \<Rightarrow> links_attempt"
  article_attempts :: "string \<Rightarrow> nat \<Rightarrow> article_attempt"
  to_csv_ok :: bool

text \<open>The \<^verbatim>\<open>for url in article_links\<close> loop; the result is \<^verbatim>\<open>articles_data\<close>.\<close>

fun scrape_loop :: "(string \<Rightarrow> nat \<Rightarrow> article_attempt) \<Rightarrow> string list
    \<Rightarrow> event list \<times> article_data list" where
  "scrape_loop pgs [] = ([], [])"
| "scrape_loop pgs (u # us) =
     (case scrape_article (pgs u) u of
        (evs, Inr article_data) \<Rightarrow>
          (case scrape_loop pgs us of (evs', articles_data) \<Rightarrow>
             (evs @ [Sleep 2] @ evs', article_data # articles_data))
      | (evs, Inl e) \<Rightarrow>
          after (evs @ [Log Error (MArticleFailed u)]) (scrape_loop pgs us))"

text \<open>
  \<^verbatim>\<open>scrape_website\<close> returns a data frame, here the list of its rows; the empty data
  frame is the empty list. \<^verbatim>\<open>get_article_links\<close> is called with its default
  \<^verbatim>\<open>max_scrolls=5\<close>.
\<close>

definition scrape_website :: "world \<Rightarrow> string \<Rightarrow> int \<Rightarrow> event list \<times> article_data list" where
  "scrape_website w base_url max_articles =
     (case get_article_links (iteration_order w) (links_attempts w) base_url 5 of
        (evs, Inl e) \<Rightarrow> (evs @ [Log Error MMainError, Quit InFinally], [])
      | (evs, Inr links) \<Rightarrow>
          (let article_links = slice_to max_articles links in
           if article_links = [] then (evs @ [Log Error MNoLinks, Quit InFinally], [])
           else
             (case scrape_loop (article_attempts w) article_links of
                (evs', articles_data) \<Rightarrow>
                  (evs @ evs'
                   @ (if articles_data = [] then []
                      else if to_csv_ok w then [Log Info (MSaved (length articles_data))]
                      else [Log Error MSaveError])
                   @ [Quit InFinally],
                   articles_data))))"

text \<open>
  The program entry of \<^verbatim>\<open>web.py\<close>: the constructor sets the driver up, then the
  site is scraped with \<^verbatim>\<open>max_articles=20\<close>; any exception ends the program with
  "Scraping failed". \<open>chrome\<close> tells which driver creations of the constructor
  succeed. The result is the data frame, if there is one.
\<close>

definition main_web :: "(nat \<Rightarrow> bool) \<Rightarrow> world \<Rightarrow> event list \<times> article_data list option" where
  "main_web chrome w =
     (case setup_driver chrome of
        (evs, Inl e) \<Rightarrow> (evs @ [Print PScrapingFailed], None)
      | (evs, Inr _) \<Rightarrow>
          (case scrape_website w ''https://www.setopati.com'' 20 of
             (evs', df) \<Rightarrow> (evs @ evs' @ [Print (PScraped (length df))], Some df)))"

section \<open>\<^verbatim>\<open>test.py\<close>: the listing scraper\<close>

text \<open>
  A \<^verbatim>\<open>div.teaser.offset\<close> of the listing page, as the program reads it: its first
  \<^verbatim>\<open>a\<close> element (the \<^verbatim>\<open>href\<close> attribute, if present, and the text) and the text of
  its first \<^verbatim>\<open>p\<close> element, each \<open>None\<close> when there is no such element.
\<close>

record anchor =
  a_href :: "string option"
  a_text :: string

record teaser_div =
  a_tag :: "anchor option"
  p_tag :: "string option"

text \<open>
  What fetching an article gives: \<^verbatim>\<open>driver.get\<close> raises; or reading and parsing the
  page source raises; or the page has no
  \<^verbatim>\<open>div.description.current-news-block.portrait\<close>; or it has one, with the texts of
  the \<^verbatim>\<open>p\<close> elements inside it.
\<close>

datatype article_page =
    NavigationFails exn
  | SourceFails exn
  | NoSection
  | Section "string list"

record article =
  title_A :: string
  teaser_A :: string
  link_A :: string
  content_A :: "string option"

definition scrape_article_content :: "article_page \<Rightarrow> string \<Rightarrow> string option outcome" where
  "scrape_article_content page u =
     (case page of
        NavigationFails e \<Rightarrow> ([Get u], Inl e)
      | SourceFails e \<Rightarrow> ([Get u, Sleep 2, Print PContentError], Inr None)
      | NoSection \<Rightarrow> ([Get u, Sleep 2], Inr None)
      | Section paragraphs \<Rightarrow> ([Get u, Sleep 2], Inr (Some (join '' '' (map strip paragraphs)))))"

text \<open>
  The body of the \<^verbatim>\<open>for article in articles\<close> loop: the events, and the record
  appended to \<^verbatim>\<open>all_articles\<close> if any. \<open>fetch\<close> is what fetching the link gives.
\<close>

definition scrape_entry :: "string \<Rightarrow> (string \<Rightarrow> article_page) \<Rightarrow> teaser_div
    \<Rightarrow> event list \<times> article option" where
  "scrape_entry base_url fetch art =
     (case p_tag art of
        None \<Rightarrow> ([Print PArticleError], None)
      | Some p \<Rightarrow>
          (case a_tag art of
             None \<Rightarrow> ([Print PArticleError], None)
           | Some title_tag \<Rightarrow>
               (case a_href title_tag of
                  None \<Rightarrow> ([Print PArticleError], None)
                | Some link0 \<Rightarrow>
                    (let relative = prefix ''/'' link0;
                         link = (if relative then base_url @ link0 else link0);
                         shown = (if relative then [Print (PLink link)] else [])
                     in case scrape_article_content (fetch link) link of
                          (evs, Inl e) \<Rightarrow> (shown @ evs @ [Print PArticleError], None)
                        | (evs, Inr full_content) \<Rightarrow>
                            (shown @ evs,
                             Some \<lparr>title_A = strip (a_text title_tag), teaser_A = strip p,
                                   link_A = link, content_A = full_content\<rparr>)))))"

fun articles_loop :: "string \<Rightarrow> (nat \<Rightarrow> string \<Rightarrow> article_page) \<Rightarrow> nat \<Rightarrow> teaser_div list
    \<Rightarrow> event list \<times> article list" where
  "articles_loop base_url web i [] = ([], [])"
| "articles_loop base_url web i (art # arts) =
     (case scrape_entry base_url (web i) art of
        (evs, r) \<Rightarrow>
          (case articles_loop base_url web (i + 1) arts of
             (evs', all_articles) \<Rightarrow>
               (evs @ evs', (case r of None \<Rightarrow> [] | Some a \<Rightarrow> [a]) @ all_articles)))"

text \<open>
  The site as one run of \<^verbatim>\<open>scrape_articles\<close> meets it: whether the driver starts,
  the navigation to the listing, the teaser blocks that
  \<^verbatim>\<open>find_all('div', class_='teaser offset', limit=max_articles)\<close> returns (or the
  exception reading the page raises), and for the \<open>i\<close>-th block and a link what
  fetching it gives.
\<close>

record site =
  site_chrome :: "exn option"
  news_nav :: "exn option"
  news_teasers :: "exn + teaser_div list"
  article_pages :: "nat \<Rightarrow> string \<Rightarrow> article_page"

definition scrape_articles :: "site \<Rightarrow> string \<Rightarrow> string \<Rightarrow> article list outcome" where
  "scrape_articles w base_url news_url =
     (case site_chrome w of
        Some e \<Rightarrow> ([Create], Inl e)
      | None \<Rightarrow>
          (case news_nav w of
             Some e \<Rightarrow> ([Create, Get news_url], Inl e)
           | None \<Rightarrow>
               (case news_teasers w of
                  Inl e \<Rightarrow> ([Create, Get news_url, Sleep 2, Quit InFinally], Inl e)
                | Inr articles \<Rightarrow>
                    (case articles_loop base_url (article_pages w) 0 articles of
                       (evs, all_articles) \<Rightarrow>
                         (Create # Get news_url # Sleep 2 # evs @ [Quit InFinally],
                          Inr all_articles)))))"

section \<open>Notions used in the statements\<close>

text \<open>The invariant of the scroll loop: the collected set has no element twice, and
  every element passed the test of \<open>keep_href\<close>.\<close>

definition links_ok :: "string list \<Rightarrow> bool" where
  "links_ok s = (distinct s \<and> (\<forall>u \<in> set s. keep_href (Some u)))"

text \<open>A wait for one of the four elements \<^verbatim>\<open>scrape_article\<close> needs (content
  element, title, date, category) times out.\<close>

definition required_timeout :: "article_attempt \<Rightarrow> bool" where
  "required_timeout p =
     (page_content_element p = Some TimeoutException \<or> page_title p = Inl TimeoutException
      \<or> page_date p = Inl TimeoutException \<or> page_category p = Inl TimeoutException)"

text \<open>The record \<^verbatim>\<open>scrape_article\<close> (with its retries) gives for a URL, \<open>None\<close>
  when the call ends in an exception.\<close>

definition extracted :: "(string \<Rightarrow> nat \<Rightarrow> article_attempt) \<Rightarrow> string \<Rightarrow> article_data option" where
  "extracted pgs u = (case snd (scrape_article (pgs u) u) of Inr a \<Rightarrow> Some a | Inl e \<Rightarrow> None)"

fun is_quit :: "event \<Rightarrow> bool" where
  "is_quit (Quit s) = True"
| "is_quit _ = False"

text \<open>The URLs navigated to, in order.\<close>

fun fetched :: "event list \<Rightarrow> string list" where
  "fetched [] = []"
| "fetched (Get u # evs) = u # fetched evs"
| "fetched (e # evs) = fetched evs"

text \<open>
  The statement about relative links in its own words: a link that starts with \<open>/\<close>
  gets the base URL in front, any other link is left as it is. \<open>entry_href\<close> is the
  link of a teaser block that has one (and a \<^verbatim>\<open>p\<close> element); \<open>entry_record\<close> is
  the record the loop body of \<^verbatim>\<open>scrape_articles\<close> appends for the \<open>i\<close>-th block.
\<close>

definition spec_normalized :: "string \<Rightarrow> string \<Rightarrow> string" where
  "spec_normalized base_url h =
     (case h of [] \<Rightarrow> h | c # cs \<Rightarrow> if c = CHR ''/'' then base_url @ h else h)"

definition entry_href :: "teaser_div \<Rightarrow> string option" where
  "entry_href art =
     (case p_tag art of None \<Rightarrow> None
      | Some p \<Rightarrow> (case a_tag art of None \<Rightarrow> None | Some t \<Rightarrow> a_href t))"

definition entry_record :: "string \<Rightarrow> (nat \<Rightarrow> string \<Rightarrow> article_page) \<Rightarrow> nat \<times> teaser_div
    \<Rightarrow> article option" where
  "entry_record base web ia = snd (scrape_entry base (web (fst ia)) (snd ia))"

text \<open>
  The statement about the body text in its own words: each paragraph text spec_trimmed of
  leading and trailing whitespace (here the trailing end first), the results
  concatenated with one space between neighbours.
\<close>

definition spec_trimmed :: "string \<Rightarrow> string" where
  "spec_trimmed s = dropWhile is_space (rev (dropWhile is_space (rev s)))"

definition spec_joined_by_spaces :: "string list \<Rightarrow> string" where
  "spec_joined_by_spaces ts =
     (case ts of [] \<Rightarrow> [] | t # rest \<Rightarrow> t @ concat (map (\<lambda>x. CHR '' '' # x) rest))"

definition spec_body_text :: "string list \<Rightarrow> string" where
  "spec_body_text paragraphs = spec_joined_by_spaces (map spec_trimmed paragraphs)"

text \<open>The number of times \<^verbatim>\<open>scrape_article\<close> (with its retries) navigates to a URL.\<close>

definition attempts_made :: "(string \<Rightarrow> nat \<Rightarrow> article_attempt) \<Rightarrow> string \<Rightarrow> nat" where
  "attempts_made pgs u = length (fetched (fst (scrape_article (pgs u) u)))"

text \<open>
  The host of an absolute URL, for the statement that a link's host matches the target
  domain: what stands between \<open>://\<close> and the next \<open>/\<close>.
\<close>

fun after_scheme :: "string \<Rightarrow> string" where
  "after_scheme [] = []"
| "after_scheme (c # cs) = (if prefix ''://'' (c # cs) then drop 3 (c # cs) else after_scheme cs)"

definition spec_host :: "string \<Rightarrow> string" where
  "spec_host u = takeWhile (\<lambda>c. c \<noteq> CHR ''/'') (after_scheme u)"

section \<open>Example inputs\<close>

text \<open>A listing that shows five \<^verbatim>\<open>a.title\<close> elements on every scroll: two articles
  of the site (one of them twice), an element without \<^verbatim>\<open>href\<close>, and a foreign link.\<close>

definition two_links :: "nat \<Rightarrow> links_attempt" where
  "two_links k = \<lparr>listing_nav = None,
     listing_scrolls = (\<lambda>i. Elements [Inr (Some ''https://www.setopati.com/a''), Inr None,
        Inr (Some ''https://www.setopati.com/b''), Inr (Some ''https://www.setopati.com/a''),
        Inr (Some ''https://example.org/c'')]),
     listing_chrome = (\<lambda>k. True)\<rparr>"

text \<open>An article page with every element but the author; the content element holds
  two paragraphs, which the browser renders on two lines.\<close>

definition good_page :: article_attempt where
  "good_page = \<lparr>page_nav = None, page_content_element = None, page_title = Inr ''Title'',
     page_date = Inr ''2024-01-01'', page_content_text = Inr [CHR ''A'', CHR 0x0A, CHR ''B''],
     page_category = Inr ''News'', page_author = Inl TimeoutException,
     page_paragraphs = [''A'', ''B''], page_chrome = (\<lambda>k. True)\<rparr>"

definition no_content_page :: article_attempt where
  "no_content_page = good_page\<lparr>page_content_element := Some TimeoutException\<rparr>"

definition no_title_page :: article_attempt where
  "no_title_page = good_page\<lparr>page_title := Inl TimeoutException\<rparr>"

text \<open>A listing whose navigation fails with a \<^verbatim>\<open>WebDriverException\<close>.\<close>

definition crashed_listing :: links_attempt where
  "crashed_listing = \<lparr>listing_nav = Some WebDriverException,
     listing_scrolls = (\<lambda>i. Elements []), listing_chrome = (\<lambda>k. True)\<rparr>"

text \<open>Three runs: one where only article \<open>a\<close> lacks its content element, one whose
  first attempt at the listing crashes, one where every attempt at the listing
  crashes.\<close>

definition calm_world :: world where
  "calm_world = \<lparr>iteration_order = rev, links_attempts = two_links,
     article_attempts = (\<lambda>u k. if u = ''https://www.setopati.com/a'' then no_content_page else good_page),
     to_csv_ok = True\<rparr>"

definition restart_world :: world where
  "restart_world = calm_world\<lparr>links_attempts := (\<lambda>k. if k = 0 then crashed_listing else two_links k)\<rparr>"

definition down_world :: world where
  "down_world = calm_world\<lparr>links_attempts := (\<lambda>k. crashed_listing)\<rparr>"

definition plain_teaser :: teaser_div where
  "plain_teaser = \<lparr>a_tag = Some \<lparr>a_href = Some ''https://example.org/story'', a_text = '' Story ''\<rparr>,
     p_tag = Some ''Teaser''\<rparr>"

definition relative_teaser :: teaser_div where
  "relative_teaser = \<lparr>a_tag = Some \<lparr>a_href = Some ''/news/1'', a_text = ''One''\<rparr>,
     p_tag = Some '' First ''\<rparr>"

definition example_site :: site where
  "example_site = \<lparr>site_chrome = None, news_nav = None,
     news_teasers = Inr [plain_teaser, plain_teaser, relative_teaser],
     article_pages = (\<lambda>i u. if i = 0 then NoSection else if i = 1 then SourceFails OtherException
        else Section ['' A '', ''B''])\<rparr>"

definition unreadable_site :: site where
  "unreadable_site = \<lparr>site_chrome = None, news_nav = None,
     news_teasers = Inr [relative_teaser],
     article_pages = (\<lambda>i u. SourceFails WebDriverException)\<rparr>"

text \<open>A listing with one link, to another host, that has the site's name in its path.\<close>

definition foreign_listing :: "nat \<Rightarrow> links_attempt" where
  "foreign_listing k = \<lparr>listing_nav = None,
     listing_scrolls = (\<lambda>i. Elements [Inr (Some ''https://evil.example/setopati.com/x'')]),
     listing_chrome = (\<lambda>k. True)\<rparr>"

text \<open>
  A run in which the driver is lost while article \<open>b\<close> is scraped: the first attempt
  crashes and the restart cannot create a driver, the second attempt crashes on the
  dead driver and the restart works, the third attempt finds the page.
\<close>

definition lost_driver_world :: world where
  "lost_driver_world = calm_world\<lparr>article_attempts := (\<lambda>u k.
      if u = ''https://www.setopati.com/b'' \<and> k = 0
      then good_page\<lparr>page_nav := Some WebDriverException, page_chrome := (\<lambda>k. False)\<rparr>
      else if u = ''https://www.setopati.com/b'' \<and> k = 1
      then good_page\<lparr>page_nav := Some WebDriverException\<rparr>
      else good_page)\<rparr>"

section \<open>Basic facts\<close>

lemma fst_after [simp]: "fst (after evs r) = evs @ fst r" by (simp add: after_def)
lemma snd_after [simp]: "snd (after evs r) = snd r" by (simp add: after_def)
lemma after_pair [simp]: "after evs (a, b) = (evs @ a, b)" by (simp add: after_def)

lemma str_contains_sublist: "str_contains needle hay \<longleftrightarrow> sublist needle hay"
  by (induction hay) (auto simp: sublist_Cons_right)

lemma set_add_set [simp]: "set (set_add x s) = insert x (set s)"
  by (auto simp: set_add_def)
lemma set_add_distinct [simp]: "distinct (set_add x s) = distinct s"
  by (auto simp: set_add_def)

lemma slice_to_prefix: "0 \<le> n \<Longrightarrow> length (slice_to n xs) \<le> nat n \<and> prefix (slice_to n xs) xs"
  by (simp add: slice_to_def take_is_prefix)

subsection \<open>\<^verbatim>\<open>setup_driver\<close>\<close>

lemma setup_driver_unfold:
  "setup_driver chrome =
     (if chrome 0 then ([Create], Inr ())
      else if chrome 1 then
        ([Create, Log Error (MInitFailed 1), Sleep 5, Create], Inr ())
      else if chrome 2 then
        ([Create, Log Error (MInitFailed 1), Sleep 5,
          Create, Log Error (MInitFailed 2), Sleep 5, Create], Inr ())
      else
        ([Create, Log Error (MInitFailed 1), Sleep 5,
          Create, Log Error (MInitFailed 2), Sleep 5,
          Create, Log Error (MInitFailed 3)], Inl InitError))"
proof -
  have l2: "setup_driver_loop chrome 2 =
      (if chrome 2 then ([Create], Inr ())
       else ([Create, Log Error (MInitFailed 3)], Inl InitError))"
    by (subst setup_driver_loop.simps) (simp add: max_attempts_def numeral_2_eq_2)
  have l1: "setup_driver_loop chrome 1 =
      (if chrome 1 then ([Create], Inr ())
       else after [Create, Log Error (MInitFailed 2), Sleep 5] (setup_driver_loop chrome 2))"
    by (subst setup_driver_loop.simps) (simp add: max_attempts_def numeral_2_eq_2)
  have l0: "setup_driver_loop chrome 0 =
      (if chrome 0 then ([Create], Inr ())
       else after [Create, Log Error (MInitFailed 1), Sleep 5] (setup_driver_loop chrome 1))"
    by (subst setup_driver_loop.simps) (simp add: max_attempts_def numeral_2_eq_2)
  show ?thesis
    unfolding setup_driver_def l0 l1 l2 by (simp add: after_def)
qed

lemma setup_driver_no_quit: "\<not> is_quit x \<or> x \<notin> set (fst (setup_driver chrome))"
  by (cases x) (auto simp: setup_driver_unfold)

lemma restart_driver_no_final: "Quit InFinally \<notin> set (fst (restart_driver chrome))"
  using setup_driver_no_quit [of "Quit InFinally" chrome] by (simp add: restart_driver_def)

subsection \<open>The retry decorator\<close>

lemma retry_Inr:
  "retry n k body = (evs, Inr v) \<Longrightarrow> \<exists>j evs'. k \<le> j \<and> j < k + n \<and> body j = (evs', Inr v)"
proof (induction n arbitrary: k evs)
  case 0
  then show ?case by simp
next
  case (Suc n)
  show ?case
  proof (cases "body k")
    case (Pair evs0 r)
    show ?thesis
    proof (cases r)
      case (Inr v')
      with Pair Suc.prems show ?thesis by auto
    next
      case (Inl e)
      with Pair Suc.prems have "n \<noteq> 0" and "snd (retry n (k + 1) body) = Inr v"
        by (auto simp: after_def split: if_splits)
      then obtain evs1 where "retry n (k + 1) body = (evs1, Inr v)"
        by (cases "retry n (k + 1) body") auto
      from Suc.IH [OF this] show ?thesis
        by (metis Suc_eq_plus1 Suc_leD add_Suc_shift)
    qed
  qed
qed

lemma retry_snd_Inr:
  "snd (retry n k body) = Inr v \<Longrightarrow> \<exists>j. k \<le> j \<and> j < k + n \<and> snd (body j) = Inr v"
proof -
  assume "snd (retry n k body) = Inr v"
  then have "retry n k body = (fst (retry n k body), Inr v)"
    by (metis prod.collapse)
  from retry_Inr [OF this] show ?thesis by force
qed

lemma retry_all_fail:
  "(\<And>j. k \<le> j \<Longrightarrow> j < k + n \<Longrightarrow> \<exists>e. snd (body j) = Inl e)
   \<Longrightarrow> snd (retry n k body) = Inl RetryError"
proof (induction n arbitrary: k)
  case 0
  then show ?case by simp
next
  case (Suc n)
  from Suc.prems [of k] obtain e where e: "snd (body k) = Inl e" by auto
  have "snd (retry n (k + 1) body) = Inl RetryError"
    by (rule Suc.IH) (use Suc.prems in auto)
  with e show ?case
    by (cases "body k") simp
qed

lemma retry_events:
  assumes "\<And>j. x \<notin> set (fst (body j))" and "\<And>s. x \<noteq> Sleep s"
  shows "x \<notin> set (fst (retry n k body))"
proof (induction n arbitrary: k)
  case 0
  then show ?case by simp
next
  case (Suc n)
  with assms(1) [of k] assms(2) show ?case
    by (cases "body k") (auto split: sum.splits)
qed

subsection \<open>\<^verbatim>\<open>get_article_links\<close>\<close>

lemma links_ok_Nil: "links_ok []"
  by (simp add: links_ok_def)

lemma links_ok_set_add: "links_ok s \<Longrightarrow> keep_href (Some h) \<Longrightarrow> links_ok (set_add h s)"
  by (simp add: links_ok_def)

lemma links_ok_perm:
  assumes "mset ys = mset xs" and "links_ok xs"
  shows "links_ok ys"
proof -
  from assms(1) have "set ys = set xs" and "distinct ys = distinct xs"
    by (metis set_mset_mset, metis mset_eq_imp_distinct_iff)
  with assms(2) show ?thesis by (simp add: links_ok_def)
qed

lemma add_links_ok: "links_ok s \<Longrightarrow> links_ok (fst (add_links links s))"
proof (induction links s rule: add_links.induct)
  case (3 href links article_links)
  then show ?case
    by (cases href) (simp_all add: links_ok_set_add)
qed simp_all

lemma scroll_loop_ok:
  "links_ok s \<Longrightarrow> snd (scroll_loop page n i s) = Inr r \<Longrightarrow> links_ok r"
proof (induction n arbitrary: i s)
  case 0
  then show ?case by simp
next
  case (Suc n)
  show ?case
  proof (cases "page i")
    case (ScrollRaises e)
    with Suc.prems Suc.IH [of s "i + 1"] show ?thesis
      by (simp split: if_splits)
  next
    case (Elements links)
    obtain s' x where add: "add_links links s = (s', x)"
      by (cases "add_links links s")
    with add_links_ok [OF Suc.prems(1), of links] have "links_ok s'" by simp
    with Elements add Suc.prems Suc.IH [of s "i + 1"] Suc.IH [of s' "i + 1"]
    show ?thesis
      by (cases x) (simp_all split: if_splits)
  qed
qed

lemma links_handlers_fails: "\<exists>e'. snd (links_handlers chrome e) = Inl e'"
  by (simp add: links_handlers_def split: prod.splits sum.splits)

lemma links_nav_fails:
  "listing_nav a = Some e \<Longrightarrow> \<exists>e'. snd (get_article_links_body si a u n) = Inl e'"
  using links_handlers_fails [of "listing_chrome a" e]
  by (auto simp: get_article_links_body_def)

lemma get_article_links_body_Inr:
  assumes "snd (get_article_links_body si a u n) = Inr links"
  shows "\<exists>acc. snd (scroll_loop (listing_scrolls a) n 0 []) = Inr acc \<and> links = si acc"
proof (cases "listing_nav a")
  case (Some e)
  with assms links_handlers_fails [of "listing_chrome a" e] show ?thesis
    by (auto simp: get_article_links_body_def)
next
  case None
  show ?thesis
  proof (cases "scroll_loop (listing_scrolls a) n 0 []")
    case (Pair evs r)
    show ?thesis
    proof (cases r)
      case (Inl e)
      with Pair None assms links_handlers_fails [of "listing_chrome a" e] show ?thesis
        by (auto simp: get_article_links_body_def)
    next
      case (Inr acc)
      with Pair None assms show ?thesis
        by (simp add: get_article_links_body_def)
    qed
  qed
qed

lemma links_handlers_no_final: "Quit InFinally \<notin> set (fst (links_handlers chrome e))"
  using restart_driver_no_final [of chrome]
  by (auto simp: links_handlers_def split: prod.splits sum.splits)

lemma scroll_loop_no_final: "Quit InFinally \<notin> set (fst (scroll_loop page n i s))"
  by (induction n arbitrary: i s) (auto split: scroll.splits prod.splits option.splits)

lemma get_article_links_body_no_final:
  "Quit InFinally \<notin> set (fst (get_article_links_body si a u n))"
  using links_handlers_no_final scroll_loop_no_final [of "listing_scrolls a" n 0 "[]"]
  by (auto simp: get_article_links_body_def split: option.splits prod.splits sum.splits)

lemma get_article_links_no_final:
  "Quit InFinally \<notin> set (fst (get_article_links si attempts u n))"
  unfolding get_article_links_def
  by (rule retry_events) (simp_all add: get_article_links_body_no_final)

subsection \<open>\<^verbatim>\<open>scrape_article\<close>\<close>

lemma scrape_article_try_required:
  "required_timeout p \<Longrightarrow> \<exists>e. scrape_article_try p u = Inl e"
  by (auto simp: required_timeout_def scrape_article_try_def split: option.splits sum.splits)

lemma scrape_article_body_fails:
  "scrape_article_try p u = Inl e \<Longrightarrow> \<exists>e'. snd (scrape_article_body p u) = Inl e'"
  by (simp add: scrape_article_body_def split: prod.splits sum.splits)

lemma scrape_article_body_Inr:
  "snd (scrape_article_body p u) = Inr r \<Longrightarrow> scrape_article_try p u = Inr r"
  by (cases "scrape_article_try p u")
     (auto simp: scrape_article_body_def split: prod.splits sum.splits if_splits)

lemma scrape_article_try_url: "scrape_article_try p u = Inr r \<Longrightarrow> url r = u"
  by (auto simp: scrape_article_try_def split: option.splits sum.splits if_splits)

lemma scrape_article_url: "snd (scrape_article attempts u) = Inr r \<Longrightarrow> url r = u"
  unfolding scrape_article_def
  by (blast dest: retry_snd_Inr scrape_article_body_Inr scrape_article_try_url)

lemma extracted_url: "extracted pgs u = Some r \<Longrightarrow> url r = u"
  by (auto simp: extracted_def split: sum.splits dest: scrape_article_url)

lemma scrape_article_body_no_final: "Quit InFinally \<notin> set (fst (scrape_article_body p u))"
  using restart_driver_no_final [of "page_chrome p"]
  by (auto simp: scrape_article_body_def split: prod.splits sum.splits)

lemma scrape_article_no_final: "Quit InFinally \<notin> set (fst (scrape_article attempts u))"
  unfolding scrape_article_def
  by (rule retry_events) (simp_all add: scrape_article_body_no_final)

lemma scrape_article_fetches: "Get u \<in> set (fst (scrape_article attempts u))"
proof -
  have "Get u \<in> set (fst (scrape_article_body (attempts 0) u))"
    by (auto simp: scrape_article_body_def split: sum.splits prod.splits)
  then show ?thesis
    by (cases "scrape_article_body (attempts 0) u")
       (auto simp: scrape_article_def stop_after_attempt_def numeral_3_eq_3 split: sum.splits)
qed

subsection \<open>\<^verbatim>\<open>scrape_website\<close>\<close>

lemma scrape_loop_records: "snd (scrape_loop pgs us) = List.map_filter (extracted pgs) us"
proof (induction us)
  case Nil
  then show ?case by (simp add: map_filter_simps)
next
  case (Cons u us)
  then show ?case
    by (cases "scrape_article (pgs u) u")
       (auto simp add: map_filter_simps extracted_def split: sum.splits prod.splits)
qed

lemma scrape_loop_no_final: "Quit InFinally \<notin> set (fst (scrape_loop pgs us))"
proof (induction us)
  case Nil
  then show ?case by simp
next
  case (Cons u us)
  with scrape_article_no_final [of "pgs u" u] show ?case
    by (cases "scrape_article (pgs u) u") (auto split: sum.splits prod.splits)
qed

lemma scrape_loop_logs_failure:
  "u \<in> set us \<Longrightarrow> snd (scrape_article (pgs u) u) = Inl e
   \<Longrightarrow> Log Error (MArticleFailed u) \<in> set (fst (scrape_loop pgs us))"
proof (induction us)
  case Nil
  then show ?case by simp
next
  case (Cons v us)
  then show ?case
    by (cases "scrape_article (pgs v) v") (auto split: sum.splits prod.splits)
qed

lemma scrape_loop_fetches: "u \<in> set us \<Longrightarrow> Get u \<in> set (fst (scrape_loop pgs us))"
proof (induction us)
  case Nil
  then show ?case by simp
next
  case (Cons v us)
  with scrape_article_fetches [of v "pgs v"] show ?case
    by (cases "scrape_article (pgs v) v") (auto split: sum.splits prod.splits)
qed

lemma map_filter_extracted_subseq: "subseq (map url (List.map_filter (extracted pgs) us)) us"
proof (induction us)
  case Nil
  then show ?case by (simp add: map_filter_simps)
next
  case (Cons u us)
  then show ?case
    by (cases "extracted pgs u") (auto simp: map_filter_simps dest: extracted_url)
qed

lemma no_record_of_failed:
  assumes "snd (scrape_article (pgs u) u) = Inl e"
  shows "\<forall>r \<in> set (List.map_filter (extracted pgs) us). url r \<noteq> u"
proof
  fix r assume "r \<in> set (List.map_filter (extracted pgs) us)"
  then obtain v where v: "extracted pgs v = Some r"
    by (auto simp: List.map_filter_def)
  then have "url r = v" by (rule extracted_url)
  moreover from assms have "extracted pgs u = None" by (simp add: extracted_def)
  ultimately show "url r \<noteq> u" using v by auto
qed

lemma scrape_website_records:
  "snd (get_article_links (iteration_order w) (links_attempts w) base 5) = Inr links
   \<Longrightarrow> snd (scrape_website w base m)
       = List.map_filter (extracted (article_attempts w)) (slice_to m links)"
  by (cases "get_article_links (iteration_order w) (links_attempts w) base 5")
     (simp add: scrape_website_def Let_def scrape_loop_records [symmetric] map_filter_simps
           split: prod.splits)

lemma scrape_website_abort:
  "snd (get_article_links (iteration_order w) (links_attempts w) base 5) = Inl e
   \<Longrightarrow> scrape_website w base m
       = (fst (get_article_links (iteration_order w) (links_attempts w) base 5)
            @ [Log Error MMainError, Quit InFinally], [])"
  by (cases "get_article_links (iteration_order w) (links_attempts w) base 5")
     (simp add: scrape_website_def)

lemma scrape_website_events:
  assumes "snd (get_article_links (iteration_order w) (links_attempts w) base 5) = Inr links"
    and "u \<in> set (slice_to m links)"
  shows "set (fst (scrape_loop (article_attempts w) (slice_to m links)))
           \<subseteq> set (fst (scrape_website w base m))"
proof -
  from assms(2) have "slice_to m links \<noteq> []" by auto
  with assms(1) show ?thesis
    by (cases "get_article_links (iteration_order w) (links_attempts w) base 5";
        cases "scrape_loop (article_attempts w) (slice_to m links)")
       (auto simp: scrape_website_def Let_def)
qed

lemma scrape_website_no_record_of_failed:
  assumes "snd (scrape_article (article_attempts w u) u) = Inl e"
  shows "\<forall>r \<in> set (snd (scrape_website w base m)). url r \<noteq> u"
proof (cases "snd (get_article_links (iteration_order w) (links_attempts w) base 5)")
  case (Inl e')
  then show ?thesis by (simp add: scrape_website_abort)
next
  case (Inr links)
  with assms no_record_of_failed [of "article_attempts w" u e "slice_to m links"] show ?thesis
    by (simp add: scrape_website_records)
qed

lemma scrape_website_finally:
  "\<exists>evs. fst (scrape_website w base m) = evs @ [Quit InFinally] \<and> Quit InFinally \<notin> set evs"
proof (cases "get_article_links (iteration_order w) (links_attempts w) base 5")
  case (Pair evs r)
  with get_article_links_no_final [of "iteration_order w" "links_attempts w" base 5]
  have evs: "Quit InFinally \<notin> set evs" by simp
  show ?thesis
  proof (cases r)
    case (Inl e)
    with Pair evs show ?thesis by (simp add: scrape_website_def)
  next
    case (Inr links)
    show ?thesis
    proof (cases "slice_to m links = []")
      case True
      with Pair Inr evs show ?thesis by (simp add: scrape_website_def)
    next
      case False
      obtain evs' recs where loop: "scrape_loop (article_attempts w) (slice_to m links) = (evs', recs)"
        by (cases "scrape_loop (article_attempts w) (slice_to m links)")
      with scrape_loop_no_final [of "article_attempts w" "slice_to m links"]
      have "Quit InFinally \<notin> set evs'" by simp
      with Pair Inr evs False loop show ?thesis
        by (simp add: scrape_website_def)
    qed
  qed
qed

lemma ends_with_count:
  "evs = pre @ [x] \<Longrightarrow> x \<notin> set pre \<Longrightarrow> count_list evs x = 1 \<and> evs \<noteq> [] \<and> last evs = x"
  by (simp add: count_list_0_iff)

subsection \<open>\<^verbatim>\<open>test.py\<close>\<close>

lemma fetched_append [simp]: "fetched (xs @ ys) = fetched xs @ fetched ys"
  by (induction xs rule: fetched.induct) simp_all

lemma spec_normalized_prefix:
  "spec_normalized base h = (if prefix ''/'' h then base @ h else h)"
  by (cases h) (simp_all add: spec_normalized_def)

lemma fetched_content: "fetched (fst (scrape_article_content page u)) = [u]"
  by (cases page) (simp_all add: scrape_article_content_def)

lemma entry_hrefD:
  "entry_href art = Some h \<Longrightarrow> \<exists>p t. p_tag art = Some p \<and> a_tag art = Some t \<and> a_href t = Some h"
  by (auto simp: entry_href_def split: option.splits)

lemma scrape_entry_eq:
  assumes "p_tag art = Some p" "a_tag art = Some t" "a_href t = Some h"
  shows "scrape_entry base fetch art =
     (case scrape_article_content (fetch (spec_normalized base h)) (spec_normalized base h) of
        (evs, Inl e) \<Rightarrow>
          ((if prefix ''/'' h then [Print (PLink (spec_normalized base h))] else []) @ evs
             @ [Print PArticleError], None)
      | (evs, Inr full_content) \<Rightarrow>
          ((if prefix ''/'' h then [Print (PLink (spec_normalized base h))] else []) @ evs,
           Some \<lparr>title_A = strip (a_text t), teaser_A = strip p,
                 link_A = spec_normalized base h, content_A = full_content\<rparr>))"
  using assms
  by (cases "prefix ''/'' h")
     (simp_all add: scrape_entry_def spec_normalized_prefix Let_def split: prod.splits sum.splits)

lemma scrape_entry_fetched:
  "fetched (fst (scrape_entry base fetch art))
     = (case entry_href art of None \<Rightarrow> [] | Some h \<Rightarrow> [spec_normalized base h])"
proof (cases "entry_href art")
  case None
  then show ?thesis
    by (auto simp: scrape_entry_def entry_href_def split: option.splits)
next
  case (Some h)
  then obtain p t where pt: "p_tag art = Some p" "a_tag art = Some t" "a_href t = Some h"
    by (auto simp: entry_href_def split: option.splits)
  let ?link = "spec_normalized base h"
  have "fetched (fst (scrape_article_content (fetch ?link) ?link)) = [?link]"
    by (rule fetched_content)
  with pt Some show ?thesis
    by (cases "scrape_article_content (fetch ?link) ?link")
       (auto simp: scrape_entry_def spec_normalized_prefix Let_def split: sum.splits)
qed

lemma scrape_entry_link:
  assumes "snd (scrape_entry base fetch art) = Some r"
  shows "\<exists>h. entry_href art = Some h \<and> link_A r = spec_normalized base h"
proof -
  from assms obtain p t h where pt: "p_tag art = Some p" "a_tag art = Some t" "a_href t = Some h"
    by (auto simp: scrape_entry_def split: option.splits)
  let ?link = "spec_normalized base h"
  from assms pt have "link_A r = ?link"
    by (cases "scrape_article_content (fetch ?link) ?link")
       (auto simp: scrape_entry_def spec_normalized_prefix Let_def split: sum.splits)
  with pt show ?thesis by (simp add: entry_href_def)
qed

lemma scrape_entry_raises:
  assumes "snd (scrape_article_content (fetch (spec_normalized base h)) (spec_normalized base h)) = Inl e"
    and "entry_href art = Some h"
  shows "snd (scrape_entry base fetch art) = None
         \<and> Print PArticleError \<in> set (fst (scrape_entry base fetch art))"
proof -
  from assms(2) obtain p t where "p_tag art = Some p" "a_tag art = Some t" "a_href t = Some h"
    by (blast dest: entry_hrefD)
  from scrape_entry_eq [OF this, of base fetch] assms(1) show ?thesis
    by (cases "scrape_article_content (fetch (spec_normalized base h)) (spec_normalized base h)") simp
qed

text \<open>An exception while the loaded page is read or parsed does not leave
  \<^verbatim>\<open>scrape_article_content\<close>: it is printed, \<open>None\<close> is returned, and the record of
  the entry is kept with no content.\<close>

lemma unreadable_page_keeps_record:
  assumes "entry_href art = Some h" and "fetch (spec_normalized base h) = SourceFails e"
  shows "(\<exists>r. snd (scrape_entry base fetch art) = Some r \<and> link_A r = spec_normalized base h
              \<and> content_A r = None)
         \<and> Print PContentError \<in> set (fst (scrape_entry base fetch art))"
proof -
  from assms(1) obtain p t where "p_tag art = Some p" "a_tag art = Some t" "a_href t = Some h"
    by (blast dest: entry_hrefD)
  from scrape_entry_eq [OF this, of base fetch] assms(2) show ?thesis
    by (simp add: scrape_article_content_def)
qed

lemma articles_loop_fetched:
  "fetched (fst (articles_loop base web i arts))
     = map (spec_normalized base) (List.map_filter entry_href arts)"
proof (induction arts arbitrary: i)
  case Nil
  then show ?case by (simp add: map_filter_simps)
next
  case (Cons art arts)
  from Cons [of "i + 1"] scrape_entry_fetched [of base "web i" art] show ?case
    by (cases "scrape_entry base (web i) art"; cases "articles_loop base web (i + 1) arts")
       (auto simp: map_filter_simps split: option.splits)
qed

lemma articles_loop_links:
  "set (map link_A (snd (articles_loop base web i arts)))
     \<subseteq> set (map (spec_normalized base) (List.map_filter entry_href arts))"
proof (induction arts arbitrary: i)
  case Nil
  then show ?case by simp
next
  case (Cons art arts)
  show ?case
  proof (cases "scrape_entry base (web i) art")
    case (Pair evs r)
    obtain evs' recs where loop: "articles_loop base web (i + 1) arts = (evs', recs)"
      by (cases "articles_loop base web (i + 1) arts")
    with Cons [of "i + 1"]
    have IH: "set (map link_A recs) \<subseteq> set (map (spec_normalized base) (List.map_filter entry_href arts))"
      by simp
    show ?thesis
    proof (cases r)
      case None
      with Pair loop IH show ?thesis
        by (cases "entry_href art") (auto simp: map_filter_simps)
    next
      case (Some a)
      with Pair scrape_entry_link [of base "web i" art a]
      obtain h where "entry_href art = Some h" "link_A a = spec_normalized base h" by auto
      with Pair loop IH Some show ?thesis
        by (auto simp: map_filter_simps)
    qed
  qed
qed

lemma articles_loop_records:
  "snd (articles_loop base web i arts)
     = List.map_filter (entry_record base web) (zip [i ..< i + length arts] arts)"
proof (induction arts arbitrary: i)
  case Nil
  then show ?case by (simp add: map_filter_simps)
next
  case (Cons art arts)
  have "[i ..< i + length (art # arts)] = i # [i + 1 ..< (i + 1) + length arts]"
    by (simp add: upt_rec)
  with Cons [of "i + 1"] show ?case
    by (cases "scrape_entry base (web i) art"; cases "articles_loop base web (i + 1) arts")
       (auto simp: map_filter_simps entry_record_def split: option.splits)
qed

lemma scrape_entry_no_quit: "\<not> is_quit x \<or> x \<notin> set (fst (scrape_entry base fetch art))"
  by (cases x) (auto simp: scrape_entry_def scrape_article_content_def Let_def
                  split: option.splits article_page.splits)

lemma articles_loop_no_quit: "is_quit x \<Longrightarrow> x \<notin> set (fst (articles_loop base web i arts))"
proof (induction arts arbitrary: i)
  case Nil
  then show ?case by simp
next
  case (Cons art arts)
  from Cons.prems Cons.IH [of "i + 1"] scrape_entry_no_quit [of x base "web i" art] show ?case
    by (cases "scrape_entry base (web i) art"; cases "articles_loop base web (i + 1) arts") auto
qed

lemma articles_loop_quits: "filter is_quit (fst (articles_loop base web i arts)) = []"
  by (auto simp: filter_empty_conv dest: articles_loop_no_quit)

lemma scrape_articles_events:
  assumes "site_chrome s = None" "news_nav s = None"
  shows "\<exists>evs. fst (scrape_articles s base news) = evs @ [Quit InFinally]
               \<and> filter is_quit evs = []"
proof (cases "news_teasers s")
  case (Inl e)
  with assms show ?thesis by (simp add: scrape_articles_def)
next
  case (Inr arts)
  with assms articles_loop_quits [of base "article_pages s" 0 arts] show ?thesis
    by (cases "articles_loop base (article_pages s) 0 arts") (simp add: scrape_articles_def)
qed

lemma drop_trailing_Cons:
  "rev (dropWhile P (rev (x # s)))
     = (if P x \<and> rev (dropWhile P (rev s)) = [] then [] else x # rev (dropWhile P (rev s)))"
  by (auto simp: dropWhile_append split: if_splits)

lemma strip_spec_trimmed: "strip s = spec_trimmed s"
proof (induction s)
  case Nil
  then show ?case by (simp add: strip_def spec_trimmed_def)
next
  case (Cons x s)
  then show ?case
    unfolding strip_def spec_trimmed_def drop_trailing_Cons
    by (auto simp: dropWhile_append split: if_splits dest: set_dropWhileD)
qed

lemma join_spaces: "join '' '' ts = spec_joined_by_spaces ts"
  by (induction "'' ''" ts rule: join.induct) (simp_all add: spec_joined_by_spaces_def)

lemma content_is_spec_body_text:
  "scrape_article_content (Section ps) u = ([Get u, Sleep 2], Inr (Some (spec_body_text ps)))"
  by (simp add: scrape_article_content_def spec_body_text_def join_spaces [symmetric] strip_spec_trimmed [abs_def, symmetric]
          del: join.simps) 

subsection \<open>The navigations of a run\<close>

lemma setup_driver_fetched: "fetched (fst (setup_driver chrome)) = []"
  by (simp add: setup_driver_unfold)

lemma restart_driver_fetched: "fetched (fst (restart_driver chrome)) = []"
  by (simp add: restart_driver_def setup_driver_fetched)

lemma scrape_article_body_fetched: "fetched (fst (scrape_article_body p u)) = [u]"
  using restart_driver_fetched [of "page_chrome p"]
  by (auto simp: scrape_article_body_def split: sum.splits prod.splits)

lemma retry_fetched:
  assumes "\<And>j. fetched (fst (body j)) = [u]"
  shows "\<exists>c. fetched (fst (retry n k body)) = replicate c u \<and> c \<le> n \<and> (0 < n \<longrightarrow> 1 \<le> c)"
proof (induction n arbitrary: k)
  case 0
  then show ?case by simp
next
  case (Suc n)
  obtain evs r where body: "body k = (evs, r)" by (cases "body k")
  with assms [of k] have evs: "fetched evs = [u]" by simp
  show ?case
  proof (cases r)
    case (Inr v)
    with body evs have "fetched (fst (retry (Suc n) k body)) = replicate 1 u" by simp
    then show ?thesis by (intro exI [of _ 1]) simp
  next
    case (Inl e)
    show ?thesis
    proof (cases "n = 0")
      case True
      with body evs Inl have "fetched (fst (retry (Suc n) k body)) = replicate 1 u" by simp
      then show ?thesis by (intro exI [of _ 1]) simp
    next
      case False
      from Suc.IH [of "k + 1"] obtain c
        where c: "fetched (fst (retry n (k + 1) body)) = replicate c u" "c \<le> n" by blast
      with body evs Inl False
      have "fetched (fst (retry (Suc n) k body)) = replicate (Suc c) u" by simp
      with c(2) show ?thesis by (intro exI [of _ "Suc c"]) simp
    qed
  qed
qed

lemma scrape_article_fetched:
  "fetched (fst (scrape_article (pgs u) u)) = replicate (attempts_made pgs u) u
   \<and> 1 \<le> attempts_made pgs u \<and> attempts_made pgs u \<le> stop_after_attempt"
proof -
  from retry_fetched [of "\<lambda>k. scrape_article_body (pgs u k) u" u stop_after_attempt 0]
  obtain c where "fetched (fst (scrape_article (pgs u) u)) = replicate c u"
    "c \<le> stop_after_attempt" "1 \<le> c"
    by (auto simp: scrape_article_def scrape_article_body_fetched stop_after_attempt_def)
  then show ?thesis by (simp add: attempts_made_def)
qed

lemma scrape_loop_fetched:
  "fetched (fst (scrape_loop pgs us))
     = concat (map (\<lambda>u. replicate (attempts_made pgs u) u) us)"
proof (induction us)
  case Nil
  then show ?case by simp
next
  case (Cons u us)
  with scrape_article_fetched [of pgs u] show ?case
    by (cases "scrape_article (pgs u) u"; cases "scrape_loop pgs us")
       (auto split: sum.splits)
qed

lemma scrape_website_fetched:
  assumes "snd (get_article_links (iteration_order w) (links_attempts w) base 5) = Inr links"
  shows "fetched (fst (scrape_website w base m))
     = fetched (fst (get_article_links (iteration_order w) (links_attempts w) base 5))
       @ concat (map (\<lambda>u. replicate (attempts_made (article_attempts w) u) u)
                  (slice_to m links))"
proof (cases "slice_to m links = []")
  case True
  with assms show ?thesis
    by (cases "get_article_links (iteration_order w) (links_attempts w) base 5")
       (simp add: scrape_website_def)
next
  case False
  with assms scrape_loop_fetched [of "article_attempts w" "slice_to m links"] show ?thesis
    by (cases "get_article_links (iteration_order w) (links_attempts w) base 5";
        cases "scrape_loop (article_attempts w) (slice_to m links)")
       (simp add: scrape_website_def)
qed

lemma slice_to_take: "0 \<le> n \<Longrightarrow> slice_to n xs = take (nat n) xs"
  by (simp add: slice_to_def)

lemma links_handlers_fetched: "fetched (fst (links_handlers chrome e)) = []"
  using restart_driver_fetched [of chrome]
  by (auto simp: links_handlers_def split: prod.splits sum.splits)

lemma scroll_loop_fetched: "fetched (fst (scroll_loop page n i s)) = []"
  by (induction n arbitrary: i s) (auto split: scroll.splits prod.splits option.splits)

lemma get_article_links_body_fetched:
  "fetched (fst (get_article_links_body si a u n)) = [u]"
  using links_handlers_fetched scroll_loop_fetched [of "listing_scrolls a" n 0 "[]"]
  by (auto simp: get_article_links_body_def split: option.splits prod.splits sum.splits)

lemma get_article_links_fetched:
  "\<exists>c. fetched (fst (get_article_links si attempts u n)) = replicate c u
       \<and> 1 \<le> c \<and> c \<le> stop_after_attempt"
  using retry_fetched [of "\<lambda>k. get_article_links_body si (attempts k) u n" u stop_after_attempt 0]
  by (auto simp: get_article_links_def get_article_links_body_fetched stop_after_attempt_def)

lemma scrape_loop_Cons:
  "snd (scrape_loop pgs (u # us))
     = (case extracted pgs u of None \<Rightarrow> [] | Some r \<Rightarrow> [r]) @ snd (scrape_loop pgs us)"
  unfolding scrape_loop_records by (cases "extracted pgs u") (simp_all add: map_filter_simps)

lemma retry_uses_attempt:
  "snd (body k) = Inl e \<Longrightarrow> snd (retry (Suc (Suc n)) k body) = snd (retry (Suc n) (k + 1) body)"
  by (cases "body k") simp

section \<open>Link collection\<close>

text \<open>
  C1, for \<^verbatim>\<open>get_article_links\<close> (\<^verbatim>\<open>web.py\<close>). Whatever order the set is iterated
  in, a list returned by \<^verbatim>\<open>get_article_links\<close> holds no URL twice, and every URL in
  it is non-empty and contains the target domain \<^verbatim>\<open>setopati.com\<close> as a substring.
\<close>

theorem get_article_links_distinct_domain:
  assumes "\<forall>xs. mset (iter xs) = mset xs"
    and "snd (get_article_links iter attempts u max_scrolls) = Inr links"
  shows "distinct links
         \<and> (\<forall>link \<in> set links. link \<noteq> [] \<and> str_contains ''setopati.com'' link)"
proof -
  from assms(2) obtain j where "snd (get_article_links_body iter (attempts j) u max_scrolls) = Inr links"
    unfolding get_article_links_def by (blast dest: retry_snd_Inr)
  then obtain acc where acc: "snd (scroll_loop (listing_scrolls (attempts j)) max_scrolls 0 []) = Inr acc"
    and links: "links = iter acc"
    by (blast dest: get_article_links_body_Inr)
  from acc have "links_ok acc"
    by (rule scroll_loop_ok [OF links_ok_Nil])
  with assms(1) links have "links_ok links"
    by (simp add: links_ok_perm)
  then show ?thesis
    by (simp add: links_ok_def keep_href_def)
qed

theorem get_article_links_distinct_domain_witness:
  "snd (get_article_links rev two_links ''https://www.setopati.com'' 5)
     = Inr [''https://www.setopati.com/b'', ''https://www.setopati.com/a'']
   \<and> distinct [''https://www.setopati.com/b'', ''https://www.setopati.com/a'']
   \<and> str_contains ''setopati.com'' ''https://www.setopati.com/b''
   \<and> str_contains ''setopati.com'' ''https://www.setopati.com/a''"
proof -
  have perm: "\<forall>xs :: string list. mset (rev xs) = mset xs" by simp
  have run: "snd (get_article_links rev two_links ''https://www.setopati.com'' 5)
     = Inr [''https://www.setopati.com/b'', ''https://www.setopati.com/a'']"
    by code_simp
  from get_article_links_distinct_domain [OF perm run] run show ?thesis by simp
qed

text \<open>
  The statement fails for the listing scan of \<^verbatim>\<open>test.py\<close>, which has no set and no
  test on the link: a listing with the same foreign link in two teaser blocks gives two
  records with that link. And in \<^verbatim>\<open>get_article_links\<close> the test is on the whole
  link, not on its host: a link to another host with \<^verbatim>\<open>setopati.com\<close> in its path
  is kept.
\<close>

theorem link_collection_counterexample:
  "snd (scrape_articles example_site ''https://ekantipur.com'' ''https://ekantipur.com/news'')
     = Inr [\<lparr>title_A = ''Story'', teaser_A = ''Teaser'',
              link_A = ''https://example.org/story'', content_A = None\<rparr>,
            \<lparr>title_A = ''Story'', teaser_A = ''Teaser'',
              link_A = ''https://example.org/story'', content_A = None\<rparr>,
            \<lparr>title_A = ''One'', teaser_A = ''First'',
              link_A = ''https://ekantipur.com/news/1'', content_A = Some ''A B''\<rparr>]
   \<and> \<not> distinct [''https://example.org/story'', ''https://example.org/story'',
                   ''https://ekantipur.com/news/1'']
   \<and> \<not> str_contains ''ekantipur.com'' ''https://example.org/story''
   \<and> snd (get_article_links (\<lambda>xs. xs) foreign_listing ''https://www.setopati.com'' 5)
       = Inr [''https://evil.example/setopati.com/x'']
   \<and> spec_host ''https://evil.example/setopati.com/x'' = ''evil.example''
   \<and> \<not> str_contains ''setopati.com'' ''evil.example''"
  by code_simp

text \<open>
  C4. The list \<^verbatim>\<open>get_article_links\<close> returns is the collected set in the set's
  iteration order, whatever that is. For \<^verbatim>\<open>max_articles\<close> not negative,
  \<^verbatim>\<open>scrape_website\<close> keeps exactly the first \<^verbatim>\<open>max_articles\<close> elements of it:
  after the listing, the run navigates to these links and no others, in that order,
  each once per attempt of \<^verbatim>\<open>scrape_article\<close> (one to three times), and the
  records returned are those of these links whose call succeeded.
\<close>

theorem links_in_set_order_capped:
  assumes "0 \<le> m"
    and "snd (get_article_links (iteration_order w) (links_attempts w) base 5) = Inr links"
  shows "(\<exists>k acc. k < stop_after_attempt
            \<and> snd (scroll_loop (listing_scrolls (links_attempts w k)) 5 0 []) = Inr acc
            \<and> links = iteration_order w acc)
         \<and> slice_to m links = take (nat m) links
         \<and> length (slice_to m links) \<le> nat m
         \<and> prefix (slice_to m links) links
         \<and> (\<exists>c. 1 \<le> c \<and> c \<le> stop_after_attempt
               \<and> fetched (fst (scrape_website w base m))
                   = replicate c base
                     @ concat (map (\<lambda>u. replicate (attempts_made (article_attempts w) u) u)
                                (take (nat m) links)))
         \<and> (\<forall>u. 1 \<le> attempts_made (article_attempts w) u
                 \<and> attempts_made (article_attempts w) u \<le> stop_after_attempt)
         \<and> snd (scrape_website w base m)
             = List.map_filter (extracted (article_attempts w)) (take (nat m) links)
         \<and> subseq (map url (snd (scrape_website w base m))) (slice_to m links)"
proof -
  from assms(2) obtain k where k: "k < stop_after_attempt"
    and body: "snd (get_article_links_body (iteration_order w) (links_attempts w k) base 5) = Inr links"
    unfolding get_article_links_def by (auto dest: retry_snd_Inr)
  from get_article_links_body_Inr [OF body] k
  have "\<exists>k acc. k < stop_after_attempt
            \<and> snd (scroll_loop (listing_scrolls (links_attempts w k)) 5 0 []) = Inr acc
            \<and> links = iteration_order w acc"
    by blast
  moreover from assms(1) have slice: "slice_to m links = take (nat m) links"
    by (rule slice_to_take)
  moreover from assms(1) have "length (slice_to m links) \<le> nat m \<and> prefix (slice_to m links) links"
    by (rule slice_to_prefix)
  moreover from get_article_links_fetched [of "iteration_order w" "links_attempts w" base 5]
  obtain c where "1 \<le> c" "c \<le> stop_after_attempt"
    "fetched (fst (get_article_links (iteration_order w) (links_attempts w) base 5))
       = replicate c base"
    by blast
  with scrape_website_fetched [OF assms(2), of m] slice
  have "\<exists>c. 1 \<le> c \<and> c \<le> stop_after_attempt
               \<and> fetched (fst (scrape_website w base m))
                   = replicate c base
                     @ concat (map (\<lambda>u. replicate (attempts_made (article_attempts w) u) u)
                                (take (nat m) links))"
    by auto
  moreover have "\<forall>u. 1 \<le> attempts_made (article_attempts w) u
                 \<and> attempts_made (article_attempts w) u \<le> stop_after_attempt"
    using scrape_article_fetched [of "article_attempts w"] by blast
  moreover from slice have "snd (scrape_website w base m)
             = List.map_filter (extracted (article_attempts w)) (take (nat m) links)"
    by (simp add: scrape_website_records [OF assms(2)])
  moreover have "subseq (map url (snd (scrape_website w base m))) (slice_to m links)"
    by (simp add: scrape_website_records [OF assms(2)] map_filter_extracted_subseq)
  ultimately show ?thesis by simp
qed

theorem links_in_set_order_capped_witness:
  "(0::int) \<le> 1
   \<and> snd (get_article_links (iteration_order calm_world) (links_attempts calm_world)
            ''https://www.setopati.com'' 5)
       = Inr [''https://www.setopati.com/b'', ''https://www.setopati.com/a'']
   \<and> slice_to 1 [''https://www.setopati.com/b'', ''https://www.setopati.com/a'']
       = [''https://www.setopati.com/b'']
   \<and> fetched (fst (scrape_website calm_world ''https://www.setopati.com'' 1))
       = [''https://www.setopati.com'', ''https://www.setopati.com/b'']
   \<and> map url (snd (scrape_website calm_world ''https://www.setopati.com'' 1))
       = [''https://www.setopati.com/b'']"
proof -
  let ?a = "''https://www.setopati.com/a''" and ?b = "''https://www.setopati.com/b''"
  have m: "(0::int) \<le> 1" by simp
  have links: "snd (get_article_links (iteration_order calm_world) (links_attempts calm_world)
            ''https://www.setopati.com'' 5) = Inr [?b, ?a]"
    by code_simp
  have run: "fetched (fst (scrape_website calm_world ''https://www.setopati.com'' 1))
       = [''https://www.setopati.com'', ?b]"
    by code_simp
  have b: "map_option url (extracted (article_attempts calm_world) ?b) = Some ?b"
    by code_simp
  from links_in_set_order_capped [OF m links] links run b show ?thesis
    by (auto simp: map_filter_simps)
qed

text \<open>
  The iteration order of a set of strings need not be the order of insertion: with
  an order that lists the two collected links the other way round, the list returned
  is not in the order of discovery.
\<close>

theorem set_order_counterexample:
  "snd (scroll_loop (listing_scrolls (two_links 0)) 5 0 [])
     = Inr [''https://www.setopati.com/a'', ''https://www.setopati.com/b'']
   \<and> snd (get_article_links rev two_links ''https://www.setopati.com'' 5)
     = Inr [''https://www.setopati.com/b'', ''https://www.setopati.com/a'']"
  by code_simp

section \<open>Article extraction\<close>

text \<open>
  C2, by variant. In \<^verbatim>\<open>test.py\<close> an article page without the content section
  still gives a record for the entry, with its title, teaser and link and no content,
  and no error is printed for the entry. In \<^verbatim>\<open>web.py\<close> the content element is waited for like the
  other required elements: when that wait times out the attempt ends with
  \<^verbatim>\<open>TimeoutException\<close> and gives no record.
\<close>

theorem missing_container_by_variant:
  "(p_tag art = Some q \<and> a_tag art = Some t \<and> a_href t = Some h
      \<and> fetch (spec_normalized base_A h) = NoSection \<longrightarrow>
      scrape_article_content (fetch (spec_normalized base_A h)) (spec_normalized base_A h)
        = ([Get (spec_normalized base_A h), Sleep 2], Inr None)
      \<and> snd (scrape_entry base_A fetch art)
          = Some \<lparr>title_A = strip (a_text t), teaser_A = strip q,
                  link_A = spec_normalized base_A h, content_A = None\<rparr>
      \<and> Print PArticleError \<notin> set (fst (scrape_entry base_A fetch art)))
   \<and> (page_nav p = None \<and> page_content_element p = Some TimeoutException \<longrightarrow>
        scrape_article_body p u = ([Get u, Log Error (MArticleTimeout u)], Inl TimeoutException))"
proof (intro conjI impI)
  assume a: "p_tag art = Some q \<and> a_tag art = Some t \<and> a_href t = Some h
      \<and> fetch (spec_normalized base_A h) = NoSection"
  then have "p_tag art = Some q" "a_tag art = Some t" "a_href t = Some h"
    by simp_all
  from scrape_entry_eq [OF this, of base_A fetch] a
  show "snd (scrape_entry base_A fetch art)
          = Some \<lparr>title_A = strip (a_text t), teaser_A = strip q,
                  link_A = spec_normalized base_A h, content_A = None\<rparr>"
    and "Print PArticleError \<notin> set (fst (scrape_entry base_A fetch art))"
    by (simp_all add: scrape_article_content_def)
  from a show "scrape_article_content (fetch (spec_normalized base_A h)) (spec_normalized base_A h)
        = ([Get (spec_normalized base_A h), Sleep 2], Inr None)"
    by (simp add: scrape_article_content_def)
next
  assume "page_nav p = None \<and> page_content_element p = Some TimeoutException"
  then show "scrape_article_body p u
      = ([Get u, Log Error (MArticleTimeout u)], Inl TimeoutException)"
    by (simp add: scrape_article_body_def scrape_article_try_def)
qed

theorem missing_container_by_variant_witness:
  "snd (scrape_entry ''https://ekantipur.com'' (\<lambda>u. NoSection) relative_teaser)
     = Some \<lparr>title_A = ''One'', teaser_A = ''First'',
             link_A = ''https://ekantipur.com/news/1'', content_A = None\<rparr>
   \<and> scrape_article_body no_content_page ''https://www.setopati.com/a''
       = ([Get ''https://www.setopati.com/a'',
           Log Error (MArticleTimeout ''https://www.setopati.com/a'')], Inl TimeoutException)"
proof -
  have href: "p_tag relative_teaser = Some '' First ''
      \<and> a_tag relative_teaser = Some \<lparr>a_href = Some ''/news/1'', a_text = ''One''\<rparr>
      \<and> a_href \<lparr>a_href = Some ''/news/1'', a_text = ''One''\<rparr> = Some ''/news/1''"
    by (simp add: relative_teaser_def)
  have page: "page_nav no_content_page = None
      \<and> page_content_element no_content_page = Some TimeoutException"
    by (simp add: no_content_page_def good_page_def)
  have entry: "snd (scrape_entry ''https://ekantipur.com'' (\<lambda>u. NoSection) relative_teaser)
     = Some \<lparr>title_A = ''One'', teaser_A = ''First'',
             link_A = ''https://ekantipur.com/news/1'', content_A = None\<rparr>"
    by code_simp
  from missing_container_by_variant [of relative_teaser "'' First ''"
      "\<lparr>a_href = Some ''/news/1'', a_text = ''One''\<rparr>" "''/news/1''" "\<lambda>u. NoSection"
      "''https://ekantipur.com''" no_content_page "''https://www.setopati.com/a''"]
    href page entry
  show ?thesis by simp
qed

text \<open>
  In \<^verbatim>\<open>web.py\<close> a page that lacks only its content element gives no record: all
  three attempts time out and the call ends with \<^verbatim>\<open>RetryError\<close>.
\<close>

theorem missing_container_fails_counterexample:
  "page_nav no_content_page = None
   \<and> page_content_element no_content_page = Some TimeoutException
   \<and> page_title no_content_page = Inr ''Title''
   \<and> page_date no_content_page = Inr ''2024-01-01''
   \<and> page_category no_content_page = Inr ''News''
   \<and> scrape_article (\<lambda>k. no_content_page) ''https://www.setopati.com/a''
       = ([Get ''https://www.setopati.com/a'',
           Log Error (MArticleTimeout ''https://www.setopati.com/a''), Sleep 4,
           Get ''https://www.setopati.com/a'',
           Log Error (MArticleTimeout ''https://www.setopati.com/a''), Sleep 4,
           Get ''https://www.setopati.com/a'',
           Log Error (MArticleTimeout ''https://www.setopati.com/a'')], Inl RetryError)"
  by code_simp

text \<open>
  C3. When the wait for the content element, the title, the date or the category
  times out, the attempt of \<^verbatim>\<open>scrape_article\<close> ends in an exception and gives no
  record; when that happens on each of the three attempts, the call ends with
  \<^verbatim>\<open>RetryError\<close>.
\<close>

theorem required_field_timeout_fails:
  "(required_timeout p \<longrightarrow> (\<exists>e. snd (scrape_article_body p u) = Inl e))
   \<and> ((\<forall>k < stop_after_attempt. required_timeout (attempts k))
        \<longrightarrow> snd (scrape_article attempts u) = Inl RetryError)"
proof (intro conjI impI)
  assume "required_timeout p"
  then show "\<exists>e. snd (scrape_article_body p u) = Inl e"
    by (blast dest: scrape_article_try_required scrape_article_body_fails)
next
  assume all: "\<forall>k < stop_after_attempt. required_timeout (attempts k)"
  show "snd (scrape_article attempts u) = Inl RetryError"
    unfolding scrape_article_def
  proof (rule retry_all_fail)
    fix j assume "0 \<le> j" "j < 0 + stop_after_attempt"
    with all have "required_timeout (attempts j)" by simp
    then show "\<exists>e. snd (scrape_article_body (attempts j) u) = Inl e"
      by (blast dest: scrape_article_try_required scrape_article_body_fails)
  qed
qed

theorem required_field_timeout_fails_witness:
  "required_timeout no_title_page
   \<and> snd (scrape_article_body no_title_page ''https://www.setopati.com/a'') = Inl TimeoutException
   \<and> snd (scrape_article (\<lambda>k. no_title_page) ''https://www.setopati.com/a'') = Inl RetryError"
proof -
  have req: "required_timeout no_title_page"
    by (simp add: required_timeout_def no_title_page_def good_page_def)
  have body: "snd (scrape_article_body no_title_page ''https://www.setopati.com/a'')
      = Inl TimeoutException"
    by code_simp
  from required_field_timeout_fails [of no_title_page "''https://www.setopati.com/a''"
      "\<lambda>k. no_title_page"] req body
  show ?thesis by simp
qed

text \<open>
  C9, by variant. In \<^verbatim>\<open>test.py\<close>, for a page with the content section, the
  content is the texts of its paragraphs, each spec_trimmed, joined by single spaces. In
  \<^verbatim>\<open>web.py\<close> the content of a record is the text of the content element as the
  browser gives it.
\<close>

theorem body_content_by_variant:
  "scrape_article_content (Section paragraphs) u
     = ([Get u, Sleep 2], Inr (Some (spec_body_text paragraphs)))
   \<and> (snd (scrape_article_body p v) = Inr r \<longrightarrow> page_content_text p = Inr (content r))"
proof (intro conjI impI)
  show "scrape_article_content (Section paragraphs) u
     = ([Get u, Sleep 2], Inr (Some (spec_body_text paragraphs)))"
    by (rule content_is_spec_body_text)
next
  assume "snd (scrape_article_body p v) = Inr r"
  then have "scrape_article_try p v = Inr r"
    by (rule scrape_article_body_Inr)
  then show "page_content_text p = Inr (content r)"
    by (auto simp: scrape_article_try_def split: option.splits sum.splits if_splits)
qed

theorem body_content_by_variant_witness:
  "scrape_article_content (Section ['' A '', ''B'']) ''https://ekantipur.com/news/1''
     = ([Get ''https://ekantipur.com/news/1'', Sleep 2], Inr (Some ''A B''))
   \<and> snd (scrape_article_body good_page ''https://www.setopati.com/b'')
       = Inr \<lparr>url = ''https://www.setopati.com/b'', title = ''Title'', date = ''2024-01-01'',
               content = [CHR ''A'', CHR 0x0A, CHR ''B''], category = ''News'',
               author = ''Unknown''\<rparr>
   \<and> page_content_text good_page = Inr [CHR ''A'', CHR 0x0A, CHR ''B'']"
proof -
  have body: "spec_body_text ['' A '', ''B''] = ''A B''"
    by code_simp
  have run: "snd (scrape_article_body good_page ''https://www.setopati.com/b'')
       = Inr \<lparr>url = ''https://www.setopati.com/b'', title = ''Title'', date = ''2024-01-01'',
               content = [CHR ''A'', CHR 0x0A, CHR ''B''], category = ''News'',
               author = ''Unknown''\<rparr>"
    by code_simp
  from body_content_by_variant [of "['' A '', ''B'']" "''https://ekantipur.com/news/1''" good_page
      "''https://www.setopati.com/b''"
      "\<lparr>url = ''https://www.setopati.com/b'', title = ''Title'', date = ''2024-01-01'',
               content = [CHR ''A'', CHR 0x0A, CHR ''B''], category = ''News'',
               author = ''Unknown''\<rparr>"] body run
  show ?thesis by simp
qed

text \<open>
  In \<^verbatim>\<open>web.py\<close> the content is not assembled from the paragraphs: for a content
  element with the paragraphs \<open>A\<close> and \<open>B\<close>, which the browser renders on two lines,
  the content is the rendered text with its line break, not \<open>A B\<close>.
\<close>

theorem rendered_text_counterexample:
  "page_content_element good_page = None
   \<and> page_paragraphs good_page = [''A'', ''B'']
   \<and> spec_body_text (page_paragraphs good_page) = ''A B''
   \<and> snd (scrape_article (\<lambda>k. good_page) ''https://www.setopati.com/b'')
       = Inr \<lparr>url = ''https://www.setopati.com/b'', title = ''Title'', date = ''2024-01-01'',
               content = [CHR ''A'', CHR 0x0A, CHR ''B''], category = ''News'',
               author = ''Unknown''\<rparr>
   \<and> [CHR ''A'', CHR 0x0A, CHR ''B''] \<noteq> ''A B''"
  by code_simp

text \<open>
  C10. In \<^verbatim>\<open>scrape_articles\<close> (\<^verbatim>\<open>test.py\<close>), the URLs navigated to after the
  listing are, in order, the links of all teaser blocks that have one, each with the
  base URL in front when it starts with \<open>/\<close> and unchanged otherwise; no link is left
  out for its host. The links of the records returned are among them.
\<close>

theorem relative_links_prefixed:
  assumes "site_chrome s = None" and "news_nav s = None" and "news_teasers s = Inr arts"
  shows "fetched (fst (scrape_articles s base news))
           = news # map (spec_normalized base) (List.map_filter entry_href arts)
         \<and> (\<exists>recs. snd (scrape_articles s base news) = Inr recs
               \<and> set (map link_A recs)
                   \<subseteq> set (map (spec_normalized base) (List.map_filter entry_href arts)))
         \<and> (\<forall>h. spec_normalized base h = (if prefix ''/'' h then base @ h else h))"
proof (intro conjI allI)
  obtain evs recs where loop: "articles_loop base (article_pages s) 0 arts = (evs, recs)"
    by (cases "articles_loop base (article_pages s) 0 arts")
  with assms articles_loop_fetched [of base "article_pages s" 0 arts]
  show "fetched (fst (scrape_articles s base news))
           = news # map (spec_normalized base) (List.map_filter entry_href arts)"
    by (simp add: scrape_articles_def)
  from loop assms articles_loop_links [of base "article_pages s" 0 arts]
  show "\<exists>recs. snd (scrape_articles s base news) = Inr recs
               \<and> set (map link_A recs)
                   \<subseteq> set (map (spec_normalized base) (List.map_filter entry_href arts))"
    by (simp add: scrape_articles_def)
next
  fix h show "spec_normalized base h = (if prefix ''/'' h then base @ h else h)"
    by (rule spec_normalized_prefix)
qed

theorem relative_links_prefixed_witness:
  "site_chrome example_site = None \<and> news_nav example_site = None
   \<and> news_teasers example_site = Inr [plain_teaser, plain_teaser, relative_teaser]
   \<and> fetched (fst (scrape_articles example_site ''https://ekantipur.com''
                     ''https://ekantipur.com/news''))
       = [''https://ekantipur.com/news'', ''https://example.org/story'',
          ''https://example.org/story'', ''https://ekantipur.com/news/1'']"
proof -
  have site: "site_chrome example_site = None" "news_nav example_site = None"
    "news_teasers example_site = Inr [plain_teaser, plain_teaser, relative_teaser]"
    by (simp_all add: example_site_def)
  have hrefs: "map (spec_normalized ''https://ekantipur.com'')
      (List.map_filter entry_href [plain_teaser, plain_teaser, relative_teaser])
     = [''https://example.org/story'', ''https://example.org/story'',
        ''https://ekantipur.com/news/1'']"
    by code_simp
  from relative_links_prefixed [OF site, of "''https://ekantipur.com''"
      "''https://ekantipur.com/news''"] site hrefs
  show ?thesis by simp
qed

section \<open>Session acquisition\<close>

text \<open>
  C5. \<^verbatim>\<open>setup_driver\<close> tries to create the browser session at most three times,
  sleeps five seconds between two consecutive attempts, and when the third attempt
  fails it raises, with no fourth attempt and no sleep after the last failure. Raised
  from the constructor, the exception ends the program with "Scraping failed" before
  anything is scraped. Raised from a restart of the driver inside
  \<^verbatim>\<open>scrape_article\<close> or \<^verbatim>\<open>get_article_links\<close>, it is the failure of that
  attempt: the retry decorator goes on with the next attempt, and the loop over the
  links goes on with the next link. The whole behaviour of \<^verbatim>\<open>setup_driver\<close>, by
  the attempt that first succeeds:
\<close>

theorem setup_driver_three_attempts:
  "setup_driver chrome =
     (if chrome 0 then ([Create], Inr ())
      else if chrome 1 then
        ([Create, Log Error (MInitFailed 1), Sleep 5, Create], Inr ())
      else if chrome 2 then
        ([Create, Log Error (MInitFailed 1), Sleep 5,
          Create, Log Error (MInitFailed 2), Sleep 5, Create], Inr ())
      else
        ([Create, Log Error (MInitFailed 1), Sleep 5,
          Create, Log Error (MInitFailed 2), Sleep 5,
          Create, Log Error (MInitFailed 3)], Inl InitError))
   \<and> (\<not> chrome 0 \<and> \<not> chrome 1 \<and> \<not> chrome 2 \<longrightarrow>
        main_web chrome w =
          ([Create, Log Error (MInitFailed 1), Sleep 5,
            Create, Log Error (MInitFailed 2), Sleep 5,
            Create, Log Error (MInitFailed 3), Print PScrapingFailed], None))
   \<and> (\<not> page_chrome p 0 \<and> \<not> page_chrome p 1 \<and> \<not> page_chrome p 2
       \<and> scrape_article_try p u = Inl WebDriverException \<longrightarrow>
        scrape_article_body p u =
          ([Get u, Log Error (MArticleDriverError u), Quit InRestart,
            Create, Log Error (MInitFailed 1), Sleep 5,
            Create, Log Error (MInitFailed 2), Sleep 5,
            Create, Log Error (MInitFailed 3)], Inl InitError))
   \<and> (\<not> listing_chrome a 0 \<and> \<not> listing_chrome a 1 \<and> \<not> listing_chrome a 2
       \<and> listing_nav a = Some WebDriverException \<longrightarrow>
        get_article_links_body si a v n =
          ([Get v, Log Error MLinksDriverError, Quit InRestart,
            Create, Log Error (MInitFailed 1), Sleep 5,
            Create, Log Error (MInitFailed 2), Sleep 5,
            Create, Log Error (MInitFailed 3)], Inl InitError))
   \<and> (snd (body k) = Inl e \<longrightarrow>
        snd (retry (Suc (Suc j)) k body) = snd (retry (Suc j) (k + 1) body))
   \<and> snd (scrape_loop pgs (u # us))
       = (case extracted pgs u of None \<Rightarrow> [] | Some r \<Rightarrow> [r]) @ snd (scrape_loop pgs us)"
proof (intro conjI impI)
  show "snd (scrape_loop pgs (u # us))
       = (case extracted pgs u of None \<Rightarrow> [] | Some r \<Rightarrow> [r]) @ snd (scrape_loop pgs us)"
    by (rule scrape_loop_Cons)
next
  assume "snd (body k) = Inl e"
  then show "snd (retry (Suc (Suc j)) k body) = snd (retry (Suc j) (k + 1) body)"
    by (rule retry_uses_attempt)
qed (simp_all add: setup_driver_unfold main_web_def scrape_article_body_def restart_driver_def
       get_article_links_body_def links_handlers_def)

theorem setup_driver_three_attempts_witness:
  "setup_driver (\<lambda>k. False) =
     ([Create, Log Error (MInitFailed 1), Sleep 5,
       Create, Log Error (MInitFailed 2), Sleep 5,
       Create, Log Error (MInitFailed 3)], Inl InitError)
   \<and> main_web (\<lambda>k. False) calm_world =
       ([Create, Log Error (MInitFailed 1), Sleep 5,
         Create, Log Error (MInitFailed 2), Sleep 5,
         Create, Log Error (MInitFailed 3), Print PScrapingFailed], None)
   \<and> setup_driver (\<lambda>k. k = 2) =
       ([Create, Log Error (MInitFailed 1), Sleep 5,
         Create, Log Error (MInitFailed 2), Sleep 5, Create], Inr ())
   \<and> snd (scrape_article_body
            (article_attempts lost_driver_world ''https://www.setopati.com/b'' 0)
            ''https://www.setopati.com/b'') = Inl InitError
   \<and> snd (get_article_links_body rev (crashed_listing\<lparr>listing_chrome := (\<lambda>k. False)\<rparr>)
            ''https://www.setopati.com'' 5) = Inl InitError
   \<and> map_option url (extracted (article_attempts lost_driver_world)
        ''https://www.setopati.com/b'') = Some ''https://www.setopati.com/b''"
proof -
  let ?b = "''https://www.setopati.com/b''"
  let ?p = "article_attempts lost_driver_world ?b 0"
  let ?a = "crashed_listing\<lparr>listing_chrome := (\<lambda>k. False)\<rparr>"
  let ?body = "\<lambda>k. scrape_article_body (article_attempts lost_driver_world ?b k) ?b"
  have p: "\<not> page_chrome ?p 0 \<and> \<not> page_chrome ?p 1 \<and> \<not> page_chrome ?p 2
       \<and> scrape_article_try ?p ?b = Inl WebDriverException"
    by code_simp
  have a: "\<not> listing_chrome ?a 0 \<and> \<not> listing_chrome ?a 1 \<and> \<not> listing_chrome ?a 2
       \<and> listing_nav ?a = Some WebDriverException"
    by (simp add: crashed_listing_def)
  have third: "map_option url
      (case snd (retry (Suc 1) (0 + 1) ?body) of Inr r \<Rightarrow> Some r | Inl e \<Rightarrow> None) = Some ?b"
    by code_simp
  note t1 = setup_driver_three_attempts [of "\<lambda>k. False" calm_world ?p ?b ?a rev
      "''https://www.setopati.com''" 5 ?body 0 InitError 1 "article_attempts lost_driver_world" "[]"]
  note t2 = setup_driver_three_attempts [of "\<lambda>k. k = 2" calm_world ?p ?b ?a rev
      "''https://www.setopati.com''" 5 ?body 0 InitError 1 "article_attempts lost_driver_world" "[]"]
  from t1 p have body0: "snd (?body 0) = Inl InitError" by simp
  with t1 have "snd (retry (Suc (Suc 1)) 0 ?body) = snd (retry (Suc 1) (0 + 1) ?body)"
    by blast
  with third have "map_option url (extracted (article_attempts lost_driver_world) ?b) = Some ?b"
    by (simp add: extracted_def scrape_article_def stop_after_attempt_def numeral_3_eq_3)
  with t1 t2 p a body0 show ?thesis by simp
qed

text \<open>
  Three failed creations do not always end the run: here the restart of the driver
  uses them up while article \<open>b\<close> is scraped, and the run still returns both records.
\<close>

theorem restart_exhaustion_counterexample:
  "fst (scrape_website lost_driver_world ''https://www.setopati.com'' 20)
     = [Get ''https://www.setopati.com'', Sleep 2, Sleep 2, Sleep 2, Sleep 2, Sleep 2,
        Log Info (MCollected 2),
        Get ''https://www.setopati.com/b'',
        Log Error (MArticleDriverError ''https://www.setopati.com/b''), Quit InRestart,
        Create, Log Error (MInitFailed 1), Sleep 5,
        Create, Log Error (MInitFailed 2), Sleep 5,
        Create, Log Error (MInitFailed 3), Sleep 4,
        Get ''https://www.setopati.com/b'',
        Log Error (MArticleDriverError ''https://www.setopati.com/b''), Quit InRestart,
        Create, Sleep 4,
        Get ''https://www.setopati.com/b'',
        Log Info (MArticleScraped ''https://www.setopati.com/b''), Sleep 2,
        Get ''https://www.setopati.com/a'',
        Log Info (MArticleScraped ''https://www.setopati.com/a''), Sleep 2,
        Log Info (MSaved 2), Quit InFinally]
   \<and> map url (snd (scrape_website lost_driver_world ''https://www.setopati.com'' 20))
       = [''https://www.setopati.com/b'', ''https://www.setopati.com/a'']"
  by code_simp


section \<open>The orchestrator\<close>

text \<open>
  C6. When \<^verbatim>\<open>get_article_links\<close> ends in an exception (as it does with
  \<^verbatim>\<open>RetryError\<close> when the driver fails on each of its three attempts),
  \<^verbatim>\<open>scrape_website\<close> logs "Error in main scraping process", quits the driver and
  returns the empty data frame without scraping any article. When links were
  collected, every link of the batch is navigated to, and the records returned are
  those of the links whose \<^verbatim>\<open>scrape_article\<close> call succeeded, in order: a call that
  ends in an exception only leaves its link out.
\<close>

theorem orchestrator_skips_and_aborts:
  "(snd (get_article_links (iteration_order w) (links_attempts w) base 5) = Inl e \<longrightarrow>
      scrape_website w base m
        = (fst (get_article_links (iteration_order w) (links_attempts w) base 5)
             @ [Log Error MMainError, Quit InFinally], []))
   \<and> ((\<forall>k < stop_after_attempt. listing_nav (links_attempts w k) = Some WebDriverException) \<longrightarrow>
        snd (get_article_links (iteration_order w) (links_attempts w) base 5) = Inl RetryError)
   \<and> (snd (get_article_links (iteration_order w) (links_attempts w) base 5) = Inr links \<longrightarrow>
        snd (scrape_website w base m)
          = List.map_filter (extracted (article_attempts w)) (slice_to m links)
        \<and> (\<forall>v \<in> set (slice_to m links). Get v \<in> set (fst (scrape_website w base m))))"
proof (intro conjI impI ballI)
  assume "snd (get_article_links (iteration_order w) (links_attempts w) base 5) = Inl e"
  then show "scrape_website w base m
        = (fst (get_article_links (iteration_order w) (links_attempts w) base 5)
             @ [Log Error MMainError, Quit InFinally], [])"
    by (rule scrape_website_abort)
next
  assume down: "\<forall>k < stop_after_attempt. listing_nav (links_attempts w k) = Some WebDriverException"
  show "snd (get_article_links (iteration_order w) (links_attempts w) base 5) = Inl RetryError"
    unfolding get_article_links_def
  proof (rule retry_all_fail)
    fix j assume "0 \<le> j" "j < 0 + stop_after_attempt"
    with down have "listing_nav (links_attempts w j) = Some WebDriverException" by simp
    then show "\<exists>e. snd (get_article_links_body (iteration_order w) (links_attempts w j) base 5) = Inl e"
      by (rule links_nav_fails)
  qed
next
  assume "snd (get_article_links (iteration_order w) (links_attempts w) base 5) = Inr links"
  then show "snd (scrape_website w base m)
          = List.map_filter (extracted (article_attempts w)) (slice_to m links)"
    by (rule scrape_website_records)
next
  fix v
  assume links: "snd (get_article_links (iteration_order w) (links_attempts w) base 5) = Inr links"
    and v: "v \<in> set (slice_to m links)"
  from v have "Get v \<in> set (fst (scrape_loop (article_attempts w) (slice_to m links)))"
    by (rule scrape_loop_fetches)
  with scrape_website_events [OF links v]
  show "Get v \<in> set (fst (scrape_website w base m))" by blast
qed

theorem orchestrator_skips_and_aborts_witness:
  "scrape_website down_world ''https://www.setopati.com'' 20
     = ([Get ''https://www.setopati.com'', Log Error MLinksDriverError, Quit InRestart, Create,
         Sleep 4,
         Get ''https://www.setopati.com'', Log Error MLinksDriverError, Quit InRestart, Create,
         Sleep 4,
         Get ''https://www.setopati.com'', Log Error MLinksDriverError, Quit InRestart, Create,
         Log Error MMainError, Quit InFinally], [])
   \<and> extracted (article_attempts calm_world) ''https://www.setopati.com/a'' = None
   \<and> map url (snd (scrape_website calm_world ''https://www.setopati.com'' 20))
       = [''https://www.setopati.com/b'']
   \<and> Get ''https://www.setopati.com/a''
       \<in> set (fst (scrape_website calm_world ''https://www.setopati.com'' 20))
   \<and> Get ''https://www.setopati.com/b''
       \<in> set (fst (scrape_website calm_world ''https://www.setopati.com'' 20))"
proof -
  let ?a = "''https://www.setopati.com/a''" and ?b = "''https://www.setopati.com/b''"
  let ?base = "''https://www.setopati.com''"
  have down: "\<forall>k < stop_after_attempt.
      listing_nav (links_attempts down_world k) = Some WebDriverException"
    by (simp add: down_world_def calm_world_def crashed_listing_def)
  have evs: "fst (get_article_links (iteration_order down_world) (links_attempts down_world) ?base 5)
     = [Get ?base, Log Error MLinksDriverError, Quit InRestart, Create, Sleep 4,
        Get ?base, Log Error MLinksDriverError, Quit InRestart, Create, Sleep 4,
        Get ?base, Log Error MLinksDriverError, Quit InRestart, Create]"
    by code_simp
  have links: "snd (get_article_links (iteration_order calm_world) (links_attempts calm_world)
      ?base 5) = Inr [?b, ?a]"
    by code_simp
  have slice: "slice_to 20 [?b, ?a] = [?b, ?a]"
    by (simp add: slice_to_def)
  have a: "extracted (article_attempts calm_world) ?a = None"
    by code_simp
  have b: "map_option url (extracted (article_attempts calm_world) ?b) = Some ?b"
    by code_simp
  note down_run = orchestrator_skips_and_aborts [of down_world ?base RetryError 20 "[]"]
  note calm_run = orchestrator_skips_and_aborts [of calm_world ?base RetryError 20 "[?b, ?a]"]
  from down_run down evs
  have "scrape_website down_world ?base 20
     = ([Get ?base, Log Error MLinksDriverError, Quit InRestart, Create, Sleep 4,
         Get ?base, Log Error MLinksDriverError, Quit InRestart, Create, Sleep 4,
         Get ?base, Log Error MLinksDriverError, Quit InRestart, Create,
         Log Error MMainError, Quit InFinally], [])"
    by simp
  moreover from calm_run links slice a b
  have "map url (snd (scrape_website calm_world ?base 20)) = [?b]"
    by (auto simp: map_filter_simps)
  moreover from calm_run links slice
  have "Get ?a \<in> set (fst (scrape_website calm_world ?base 20))"
    and "Get ?b \<in> set (fst (scrape_website calm_world ?base 20))"
    by simp_all
  ultimately show ?thesis using a by simp
qed

text \<open>
  C7, by variant. In \<^verbatim>\<open>scrape_website\<close>, a URL whose \<^verbatim>\<open>scrape_article\<close> call ends
  in an exception has no record in the result, and when it was in the batch
  "Failed to scrape article" is logged for it. In \<^verbatim>\<open>scrape_articles\<close>, an entry
  whose article cannot be navigated to gives no record and "Error scraping article" is
  printed; an entry whose loaded page cannot be read gives a record with its link and
  no content, and "Error loading article content" is printed. The records returned
  are exactly those the entries give.
\<close>

theorem failed_url_by_variant:
  "(snd (scrape_article (article_attempts w u) u) = Inl e \<longrightarrow>
      (\<forall>r \<in> set (snd (scrape_website w base m)). url r \<noteq> u)
      \<and> (snd (get_article_links (iteration_order w) (links_attempts w) base 5) = Inr links
           \<and> u \<in> set (slice_to m links)
         \<longrightarrow> Log Error (MArticleFailed u) \<in> set (fst (scrape_website w base m))))
   \<and> (entry_href art = Some h \<and> fetch (spec_normalized base_A h) = NavigationFails e' \<longrightarrow>
        snd (scrape_entry base_A fetch art) = None
        \<and> Print PArticleError \<in> set (fst (scrape_entry base_A fetch art)))
   \<and> (entry_href art = Some h \<and> fetch (spec_normalized base_A h) = SourceFails e' \<longrightarrow>
        (\<exists>r. snd (scrape_entry base_A fetch art) = Some r
              \<and> link_A r = spec_normalized base_A h \<and> content_A r = None)
        \<and> Print PContentError \<in> set (fst (scrape_entry base_A fetch art)))
   \<and> snd (articles_loop base_A web 0 arts)
       = List.map_filter (entry_record base_A web) (zip [0 ..< length arts] arts)"
proof (intro conjI impI)
  assume "snd (scrape_article (article_attempts w u) u) = Inl e"
  then show "\<forall>r \<in> set (snd (scrape_website w base m)). url r \<noteq> u"
    by (rule scrape_website_no_record_of_failed)
next
  assume fail: "snd (scrape_article (article_attempts w u) u) = Inl e"
    and "snd (get_article_links (iteration_order w) (links_attempts w) base 5) = Inr links
           \<and> u \<in> set (slice_to m links)"
  then have links: "snd (get_article_links (iteration_order w) (links_attempts w) base 5) = Inr links"
    and u: "u \<in> set (slice_to m links)" by simp_all
  from u fail have "Log Error (MArticleFailed u)
      \<in> set (fst (scrape_loop (article_attempts w) (slice_to m links)))"
    by (rule scrape_loop_logs_failure)
  with scrape_website_events [OF links u]
  show "Log Error (MArticleFailed u) \<in> set (fst (scrape_website w base m))" by blast
next
  assume a: "entry_href art = Some h \<and> fetch (spec_normalized base_A h) = NavigationFails e'"
  then have "snd (scrape_article_content (fetch (spec_normalized base_A h))
      (spec_normalized base_A h)) = Inl e'"
    by (simp add: scrape_article_content_def)
  with a scrape_entry_raises [of fetch base_A h e' art]
  show "snd (scrape_entry base_A fetch art) = None"
    and "Print PArticleError \<in> set (fst (scrape_entry base_A fetch art))"
    by simp_all
next
  assume a: "entry_href art = Some h \<and> fetch (spec_normalized base_A h) = SourceFails e'"
  with unreadable_page_keeps_record [of art h fetch base_A e']
  show "\<exists>r. snd (scrape_entry base_A fetch art) = Some r
              \<and> link_A r = spec_normalized base_A h \<and> content_A r = None"
    and "Print PContentError \<in> set (fst (scrape_entry base_A fetch art))"
    by simp_all
next
  show "snd (articles_loop base_A web 0 arts)
       = List.map_filter (entry_record base_A web) (zip [0 ..< length arts] arts)"
    using articles_loop_records [of base_A web 0 arts] by simp
qed

theorem failed_url_by_variant_witness:
  "snd (scrape_article (article_attempts calm_world ''https://www.setopati.com/a'')
          ''https://www.setopati.com/a'') = Inl RetryError
   \<and> map url (snd (scrape_website calm_world ''https://www.setopati.com'' 20))
        = [''https://www.setopati.com/b'']
   \<and> Log Error (MArticleFailed ''https://www.setopati.com/a'')
        \<in> set (fst (scrape_website calm_world ''https://www.setopati.com'' 20))
   \<and> scrape_entry ''https://ekantipur.com'' (\<lambda>u. NavigationFails WebDriverException)
        relative_teaser
        = ([Print (PLink ''https://ekantipur.com/news/1''), Get ''https://ekantipur.com/news/1'',
            Print PArticleError], None)
   \<and> scrape_entry ''https://ekantipur.com'' (\<lambda>u. SourceFails WebDriverException)
        relative_teaser
        = ([Print (PLink ''https://ekantipur.com/news/1''), Get ''https://ekantipur.com/news/1'',
            Sleep 2, Print PContentError],
           Some \<lparr>title_A = ''One'', teaser_A = ''First'',
                 link_A = ''https://ekantipur.com/news/1'', content_A = None\<rparr>)"
proof -
  let ?a = "''https://www.setopati.com/a''" and ?b = "''https://www.setopati.com/b''"
  let ?base = "''https://www.setopati.com''"
  have fail: "snd (scrape_article (article_attempts calm_world ?a) ?a) = Inl RetryError"
    by code_simp
  have links: "snd (get_article_links (iteration_order calm_world) (links_attempts calm_world)
      ?base 5) = Inr [?b, ?a]"
    by code_simp
  have mem: "?a \<in> set (slice_to 20 [?b, ?a])"
    by (simp add: slice_to_def)
  have href: "entry_href relative_teaser = Some ''/news/1''"
    by (simp add: entry_href_def relative_teaser_def)
  have recs: "map url (snd (scrape_website calm_world ?base 20)) = [?b]"
    by code_simp
  have nav: "scrape_entry ''https://ekantipur.com'' (\<lambda>u. NavigationFails WebDriverException)
        relative_teaser
        = ([Print (PLink ''https://ekantipur.com/news/1''), Get ''https://ekantipur.com/news/1'',
            Print PArticleError], None)"
    by code_simp
  have src: "scrape_entry ''https://ekantipur.com'' (\<lambda>u. SourceFails WebDriverException)
        relative_teaser
        = ([Print (PLink ''https://ekantipur.com/news/1''), Get ''https://ekantipur.com/news/1'',
            Sleep 2, Print PContentError],
           Some \<lparr>title_A = ''One'', teaser_A = ''First'',
                 link_A = ''https://ekantipur.com/news/1'', content_A = None\<rparr>)"
    by code_simp
  from failed_url_by_variant [of calm_world ?a RetryError ?base 20 "[?b, ?a]" relative_teaser
      "''/news/1''" "\<lambda>u. NavigationFails WebDriverException" "''https://ekantipur.com''"
      WebDriverException]
    failed_url_by_variant [of calm_world ?a RetryError ?base 20 "[?b, ?a]" relative_teaser
      "''/news/1''" "\<lambda>u. SourceFails WebDriverException" "''https://ekantipur.com''"
      WebDriverException]
    fail links mem href recs nav src
  show ?thesis by simp
qed

text \<open>
  In \<^verbatim>\<open>scrape_articles\<close> an article whose page cannot be read still gets a record:
  the exception is caught inside \<^verbatim>\<open>scrape_article_content\<close>, which returns
  \<^verbatim>\<open>None\<close>, and the record is appended with no content.
\<close>

theorem unreadable_page_record_counterexample:
  "scrape_articles unreadable_site ''https://ekantipur.com'' ''https://ekantipur.com/news''
     = ([Create, Get ''https://ekantipur.com/news'', Sleep 2,
         Print (PLink ''https://ekantipur.com/news/1''), Get ''https://ekantipur.com/news/1'',
         Sleep 2, Print PContentError, Quit InFinally],
        Inr [\<lparr>title_A = ''One'', teaser_A = ''First'',
               link_A = ''https://ekantipur.com/news/1'', content_A = None\<rparr>])"
  by code_simp

text \<open>
  C8. Every run of \<^verbatim>\<open>scrape_website\<close> calls \<^verbatim>\<open>driver.quit()\<close> from its
  \<^verbatim>\<open>finally\<close> block exactly once, as its last action. A run of
  \<^verbatim>\<open>scrape_articles\<close> in which the driver started and the listing was navigated to
  calls \<^verbatim>\<open>driver.quit()\<close> exactly once, as its last action.
\<close>

theorem final_teardown_once:
  "count_list (fst (scrape_website w base m)) (Quit InFinally) = 1
   \<and> last (fst (scrape_website w base m)) = Quit InFinally
   \<and> (site_chrome s = None \<and> news_nav s = None \<longrightarrow>
        filter is_quit (fst (scrape_articles s base_A news)) = [Quit InFinally]
        \<and> last (fst (scrape_articles s base_A news)) = Quit InFinally)"
proof (intro conjI impI)
  from scrape_website_finally [of w base m]
  obtain evs where "fst (scrape_website w base m) = evs @ [Quit InFinally]"
    and "Quit InFinally \<notin> set evs" by blast
  then show "count_list (fst (scrape_website w base m)) (Quit InFinally) = 1"
    and "last (fst (scrape_website w base m)) = Quit InFinally"
    by (simp_all add: ends_with_count)
next
  assume "site_chrome s = None \<and> news_nav s = None"
  with scrape_articles_events [of s base_A news]
  obtain evs where "fst (scrape_articles s base_A news) = evs @ [Quit InFinally]"
    and "filter is_quit evs = []" by auto
  then show "filter is_quit (fst (scrape_articles s base_A news)) = [Quit InFinally]"
    and "last (fst (scrape_articles s base_A news)) = Quit InFinally"
    by simp_all
qed

theorem final_teardown_once_witness:
  "site_chrome unreadable_site = None \<and> news_nav unreadable_site = None
   \<and> fst (scrape_articles unreadable_site ''https://ekantipur.com'' ''https://ekantipur.com/news'')
       = [Create, Get ''https://ekantipur.com/news'', Sleep 2,
          Print (PLink ''https://ekantipur.com/news/1''), Get ''https://ekantipur.com/news/1'',
          Sleep 2, Print PContentError, Quit InFinally]
   \<and> filter is_quit
        (fst (scrape_articles unreadable_site ''https://ekantipur.com'' ''https://ekantipur.com/news''))
       = [Quit InFinally]
   \<and> count_list (fst (scrape_website down_world ''https://www.setopati.com'' 20)) (Quit InFinally) = 1"
proof -
  have site: "site_chrome unreadable_site = None \<and> news_nav unreadable_site = None"
    by (simp add: unreadable_site_def)
  have run: "fst (scrape_articles unreadable_site ''https://ekantipur.com'' ''https://ekantipur.com/news'')
       = [Create, Get ''https://ekantipur.com/news'', Sleep 2,
          Print (PLink ''https://ekantipur.com/news/1''), Get ''https://ekantipur.com/news/1'',
          Sleep 2, Print PContentError, Quit InFinally]"
    by code_simp
  from final_teardown_once [of down_world "''https://www.setopati.com''" 20 unreadable_site
      "''https://ekantipur.com''" "''https://ekantipur.com/news''"] site run
  show ?thesis by simp
qed

text \<open>
  The \<^verbatim>\<open>finally\<close> block is not the only place that quits the driver: a restart
  does too, so a run of \<^verbatim>\<open>scrape_website\<close> whose first attempt at the listing
  crashes quits the driver twice.
\<close>

theorem restart_quits_twice_counterexample:
  "filter is_quit (fst (scrape_website restart_world ''https://www.setopati.com'' 20))
     = [Quit InRestart, Quit InFinally]"
  by code_simp

end
